theory Spec2Isabelle
  imports Complex_Main "HOL-Library.Multiset"
begin

section \<open>Regression on order statistics: the estimator of wqio/algo/ros.py\<close>

text \<open>
  The module estimates the censored (non-detect) results of a data set by the method of
  Hirsch and Stedinger. This theory embeds the class \<open>MR\<close> and the function \<open>rosSort\<close>
  and proves the properties of the detection-limit table, the ranks, the probabilities of
  exceedance, the plotting positions and the final values.

  Numbers. numpy's float64 is modelled by \<open>real\<close>: rounding is not modelled, and the
  results below are results about the exact arithmetic of the formulas. A float64 that
  is not a finite number (NaN, the missing value of pandas, and the infinities that a
  division by zero yields) is \<open>None\<close> of the type \<open>float64\<close>; arithmetic propagates it as
  numpy propagates NaN.
\<close>

subsection \<open>Data\<close>

datatype error = ValueError | IndexError

type_synonym float64 = "real option"

fun fadd :: "float64 \<Rightarrow> float64 \<Rightarrow> float64" where
  "fadd (Some x) (Some y) = Some (x + y)"
| "fadd _ _ = None"

fun fsub :: "float64 \<Rightarrow> float64 \<Rightarrow> float64" where
  "fsub (Some x) (Some y) = Some (x - y)"
| "fsub _ _ = None"

fun fmul :: "float64 \<Rightarrow> float64 \<Rightarrow> float64" where
  "fmul (Some x) (Some y) = Some (x * y)"
| "fmul _ _ = None"

text \<open>Division: numpy raises nothing on a zero divisor, the quotient is NaN or infinite.\<close>

fun fdiv :: "float64 \<Rightarrow> float64 \<Rightarrow> float64" where
  "fdiv (Some x) (Some y) = (if y = 0 then None else Some (x / y))"
| "fdiv _ _ = None"

definition np_log :: "real \<Rightarrow> float64" where
  "np_log x = (if 0 < x then Some (ln x) else None)"

definition np_exp :: "float64 \<Rightarrow> float64" where
  "np_exp x = map_option exp x"

text \<open>\<open>Series.mean\<close>: NaN on an empty selection.\<close>

definition mean :: "real list \<Rightarrow> float64" where
  "mean xs = (if xs = [] then None else Some (sum_list xs / real (length xs)))"

text \<open>
  The rows of \<open>self.data\<close>. Each stage of \<open>MR.__init__\<close> adds columns to the frame, so
  the row type grows with the stages: \<open>res\<close> and \<open>qual\<close> from the input, \<open>DLIndex\<close>,
  the columns \<open>Norm Ranks\<close> and \<open>Avg Ranks\<close> of \<open>_ros_ranks\<close>, and the columns of
  \<open>estimator\<close>, of which \<open>plot_pos\<close>, \<open>Zprelim\<close> and \<open>modeled_data\<close> exist only on the
  regression branch (\<open>None\<close>: the frame has no such column).
\<close>

record obs =
  res :: real
  qual :: string

record indexed = obs +
  DLIndex :: nat

record normranked = indexed +
  Norm_Ranks :: real

record ranked = normranked +
  Avg_Ranks :: float64

record estimated = ranked +
  plot_pos :: "float64 option"
  Zprelim :: "float64 option"
  modeled_data :: "float64 option"
  final_data :: float64

text \<open>
  The frame \<open>self.DLs\<close>. \<open>upper\<close> is the next detection limit or \<open>numpy.inf\<close>. The row
  that \<open>reindex\<close> appends has no value in any column but \<open>PE\<close>: its \<open>counts\<close> are \<open>None\<close>.
\<close>

datatype bound = Finite real | Infinity

fun below :: "real \<Rightarrow> bound \<Rightarrow> bool" where
  "below x (Finite u) = (x < u)"
| "below x Infinity = True"

record cohn_row =
  DL :: real
  lower :: real
  upper :: bound
  A :: nat
  B :: nat
  C :: nat

record dl_row =
  counts :: "cohn_row option"
  PE :: float64

definition col_A :: "dl_row \<Rightarrow> float64" where
  "col_A d = map_option (\<lambda>c. real (A c)) (counts d)"

definition col_B :: "dl_row \<Rightarrow> float64" where
  "col_B d = map_option (\<lambda>c. real (B c)) (counts d)"

definition col_C :: "dl_row \<Rightarrow> float64" where
  "col_C d = map_option (\<lambda>c. real (C c)) (counts d)"

text \<open>The attributes of an \<open>MR\<close> object; \<open>debug\<close> is the full copy of \<open>self.data\<close>.\<close>

record MR =
  N_tot :: nat
  N_nd :: nat
  DLs :: "dl_row list"
  debug :: "estimated list"
  fit :: "(float64 \<times> float64) option"

subsection \<open>rosSort\<close>

text \<open>
  Non-detects first, each part ascending by \<open>res\<close>. Rows that tie on \<open>res\<close> inside a part
  keep their order here; pandas does not fix it.
\<close>

definition rosSort :: "obs list \<Rightarrow> string \<Rightarrow> obs list" where
  "rosSort dataframe ndsymbol =
     (let nondetects = sort_key res (filter (\<lambda>r. qual r = ndsymbol) dataframe);
          detects = sort_key res (filter (\<lambda>r. qual r \<noteq> ndsymbol) dataframe)
      in nondetects @ detects)"

subsection \<open>MR.cohn\<close>

definition cohn_A :: "obs list \<Rightarrow> real \<Rightarrow> bound \<Rightarrow> nat" where
  "cohn_A data lo up =
     length (filter (\<lambda>r. lo \<le> res r \<and> below (res r) up \<and> qual r \<noteq> ''ND'') data)"

definition cohn_B :: "obs list \<Rightarrow> real \<Rightarrow> nat" where
  "cohn_B data lo =
     (let LTE_nondets = length (filter (\<lambda>r. res r \<le> lo \<and> qual r = ''ND'') data);
          LT_detects = length (filter (\<lambda>r. res r < lo \<and> qual r \<noteq> ''ND'') data)
      in LTE_nondets + LT_detects)"

definition cohn_C :: "obs list \<Rightarrow> real \<Rightarrow> nat" where
  "cohn_C data lo =
     length (filter (\<lambda>x. x = lo) (map res (filter (\<lambda>r. qual r = ''ND'') data)))"

text \<open>\<open>pandas.unique\<close>: the distinct values in the order of their first appearance.\<close>

fun unique :: "'a list \<Rightarrow> 'a list" where
  "unique [] = []"
| "unique (x # xs) = x # unique (filter (\<lambda>y. y \<noteq> x) xs)"

definition cohn :: "obs list \<Rightarrow> dl_row list" where
  "cohn data =
     (let DLs0 = unique (map res (filter (\<lambda>r. qual r = ''ND'') data))
      in if 0 < length DLs0 then
           let DLs1 = (if Min (set (map res data)) < Min (set DLs0)
                       then Min (set (map res data)) # DLs0 else DLs0);
               uppers = (if 1 < length DLs1 then map Finite (tl DLs1) @ [Infinity]
                         else map (\<lambda>_. Infinity) DLs1);
               rows = map (\<lambda>(d, u). \<lparr>DL = d, lower = d, upper = u, A = cohn_A data d u,
                                       B = cohn_B data d, C = cohn_C data d\<rparr>) (zip DLs1 uppers)
           in map (\<lambda>c. \<lparr>counts = Some c, PE = Some 0\<rparr>) rows @ [\<lparr>counts = None, PE = Some 0\<rparr>]
         else [])"

subsection \<open>The detection-limit index of a row\<close>

text \<open>
  \<open>index[-1]\<close> raises IndexError when no detection limit is at or below the result. The
  comparison with the missing \<open>DL\<close> of the appended row is false.
\<close>

definition ros_DL_index :: "dl_row list \<Rightarrow> real \<Rightarrow> error + nat" where
  "ros_DL_index dls r =
     (if 0 < length dls then
        (let index = filter (\<lambda>i. case counts (dls ! i) of None \<Rightarrow> False
                                   | Some c \<Rightarrow> DL c \<le> r) [0..<length dls]
         in if index = [] then Inl IndexError else Inr (last index))
      else Inr 0)"

text \<open>\<open>DataFrame.apply\<close> of a function that may raise: the first error ends the call.\<close>

fun apply_rows :: "('a \<Rightarrow> error + 'b) \<Rightarrow> 'a list \<Rightarrow> error + 'b list" where
  "apply_rows f [] = Inr []"
| "apply_rows f (x # xs) =
     (case f x of Inl e \<Rightarrow> Inl e
      | Inr y \<Rightarrow> (case apply_rows f xs of Inl e \<Rightarrow> Inl e | Inr ys \<Rightarrow> Inr (y # ys)))"

subsection \<open>MR._ros_ranks\<close>

definition norm_rank_step :: "normranked list \<Rightarrow> nat \<Rightarrow> normranked list" where
  "norm_rank_step d n =
     (if n = 0 \<or> DLIndex (d ! n) \<noteq> DLIndex (d ! (n - 1)) \<or> qual (d ! n) \<noteq> qual (d ! (n - 1))
      then d[n := (d ! n)\<lparr>Norm_Ranks := 1\<rparr>]
      else d[n := (d ! n)\<lparr>Norm_Ranks := Norm_Ranks (d ! (n - 1)) + 1\<rparr>])"

definition avgrank :: "normranked list \<Rightarrow> normranked \<Rightarrow> float64" where
  "avgrank d r =
     (if qual r \<noteq> ''ND''
      then mean (map Norm_Ranks (filter (\<lambda>s. DLIndex s = DLIndex r \<and> res s = res r
                                              \<and> qual s \<noteq> ''ND'') d))
      else Some (Norm_Ranks r))"

definition ros_ranks :: "nat \<Rightarrow> indexed list \<Rightarrow> ranked list" where
  "ros_ranks n_tot data =
     (let d0 = map (\<lambda>r. \<lparr>res = res r, qual = qual r, DLIndex = DLIndex r,
                          Norm_Ranks = real n_tot\<rparr>) data;
          d1 = fold (\<lambda>n d. norm_rank_step d n) [0..<length d0] d0
      in map (\<lambda>r. \<lparr>res = res r, qual = qual r, DLIndex = DLIndex r,
                    Norm_Ranks = Norm_Ranks r, Avg_Ranks = avgrank d1 r\<rparr>) d1)"

subsection \<open>MR.estimator\<close>

definition ros_plotting_pos :: "dl_row list \<Rightarrow> ranked \<Rightarrow> error + float64" where
  "ros_plotting_pos dls row =
     (if DLIndex row + 1 < length dls then
        (let dl_1 = dls ! DLIndex row; dl_2 = dls ! (DLIndex row + 1)
         in if qual row = ''ND''
            then Inr (fdiv (fmul (fsub (Some 1) (PE dl_1)) (Some (Norm_Ranks row)))
                           (fadd (col_C dl_1) (Some 1)))
            else Inr (fadd (fsub (Some 1) (PE dl_1))
                           (fdiv (fmul (fsub (PE dl_1) (PE dl_2)) (Some (Norm_Ranks row)))
                                 (fadd (col_A dl_1) (Some 1)))))
      else Inl IndexError)"

definition select_half_DLs :: "ranked \<Rightarrow> float64" where
  "select_half_DLs row = (if qual row = ''ND'' then Some (0.5 * res row) else Some (res row))"

text \<open>One pass of the loop over \<open>self.DLs.index[:-1][::-1]\<close>.\<close>

definition PE_step :: "nat \<Rightarrow> dl_row list \<Rightarrow> dl_row list" where
  "PE_step j dls =
     dls[j := (dls ! j)\<lparr>PE :=
        fadd (PE (dls ! (j + 1)))
             (fmul (fdiv (col_A (dls ! j)) (fadd (col_A (dls ! j)) (col_B (dls ! j))))
                   (fsub (Some 1) (PE (dls ! (j + 1)))))\<rparr>]"

definition compute_PE :: "dl_row list \<Rightarrow> dl_row list" where
  "compute_PE dls = fold PE_step (rev [0..<length dls - 1]) dls"

text \<open>
  \<open>ppf\<close> is the quantile function of the distribution \<open>self.dist\<close> and \<open>linregress\<close> is
  \<open>scipy.stats.linregress\<close> cut to its first two results, the slope and the intercept:
  both are library functions and parameters here.
\<close>

definition estimator ::
  "(float64 \<Rightarrow> float64) \<Rightarrow> (float64 list \<Rightarrow> float64 list \<Rightarrow> float64 \<times> float64) \<Rightarrow> bool \<Rightarrow>
   nat \<Rightarrow> nat \<Rightarrow> dl_row list \<Rightarrow> ranked list \<Rightarrow>
   error + (dl_row list \<times> estimated list \<times> (float64 \<times> float64) option)" where
  "estimator ppf linregress fitlogs n_tot n_nd dls data =
     (if n_nd = 0 then
        Inr (dls,
             map (\<lambda>r. \<lparr>res = res r, qual = qual r, DLIndex = DLIndex r,
                       Norm_Ranks = Norm_Ranks r, Avg_Ranks = Avg_Ranks r, plot_pos = None,
                       Zprelim = None, modeled_data = None, final_data = Some (res r)\<rparr>) data,
             None)
      else if int n_tot - int n_nd < 2 \<or> real n_nd / real n_tot > 0.8 then
        Inr (dls,
             map (\<lambda>r. \<lparr>res = res r, qual = qual r, DLIndex = DLIndex r,
                       Norm_Ranks = Norm_Ranks r, Avg_Ranks = Avg_Ranks r, plot_pos = None,
                       Zprelim = None, modeled_data = None,
                       final_data = select_half_DLs r\<rparr>) data,
             None)
      else
        (let dls' = compute_PE dls
         in case apply_rows (ros_plotting_pos dls') data of
              Inl e \<Rightarrow> Inl e
            | Inr pps \<Rightarrow>
               (let zs = map ppf pps;
                    rows = zip data (zip pps zs);
                    detect_rows = filter (\<lambda>(r, p, z). qual r \<noteq> ''ND'') rows;
                    detect_vals = (if fitlogs then map (\<lambda>(r, p, z). np_log (res r)) detect_rows
                                   else map (\<lambda>(r, p, z). Some (res r)) detect_rows);
                    fit = linregress (map (\<lambda>(r, p, z). z) detect_rows) detect_vals;
                    slope = fst fit;
                    intercept = snd fit
                in Inr (dls',
                        map (\<lambda>(r, p, z).
                               let modeled = (if qual r = ''ND''
                                              then np_exp (fadd (fmul slope z) intercept)
                                              else None)
                               in \<lparr>res = res r, qual = qual r, DLIndex = DLIndex r,
                                   Norm_Ranks = Norm_Ranks r, Avg_Ranks = Avg_Ranks r,
                                   plot_pos = Some p, Zprelim = Some z,
                                   modeled_data = Some modeled,
                                   final_data = (if qual r = ''ND'' then modeled
                                                 else Some (res r))\<rparr>) rows,
                        Some fit))))"

subsection \<open>MR.__init__\<close>

definition MR_init ::
  "(float64 \<Rightarrow> float64) \<Rightarrow> (float64 list \<Rightarrow> float64 list \<Rightarrow> float64 \<times> float64) \<Rightarrow>
   obs list \<Rightarrow> string \<Rightarrow> bool \<Rightarrow> error + MR" where
  "MR_init ppf linregress data ndsymbol fitlogs =
     (if data \<noteq> [] \<and> Min (set (map res data)) \<le> 0 then Inl ValueError
      else
        (let n_tot = length data;
             n_nd = length (filter (\<lambda>r. qual r = ndsymbol) data);
             newdata = map (\<lambda>r. r\<lparr>qual := (if qual r = ndsymbol then ''ND'' else ''='')\<rparr>) data;
             sorted_data = rosSort newdata ndsymbol;
             dls = cohn sorted_data
         in case apply_rows (\<lambda>r. ros_DL_index dls (res r)) sorted_data of
              Inl e \<Rightarrow> Inl e
            | Inr idx \<Rightarrow>
               (let withidx = map (\<lambda>(r, i). \<lparr>res = res r, qual = qual r, DLIndex = i\<rparr>)
                                  (zip sorted_data idx);
                    rk = ros_ranks n_tot withidx
                in case estimator ppf linregress fitlogs n_tot n_nd dls rk of
                     Inl e \<Rightarrow> Inl e
                   | Inr (dls', out, f) \<Rightarrow>
                      Inr \<lparr>N_tot = n_tot, N_nd = n_nd, DLs = dls', debug = out, fit = f\<rparr>)))"

subsection \<open>Auxiliary notions for the proofs\<close>

definition nd_values :: "obs list \<Rightarrow> real list" where
  "nd_values data = map res (filter (\<lambda>r. qual r = ''ND'') data)"

definition cohn_limits :: "obs list \<Rightarrow> real list" where
  "cohn_limits data =
     (if Min (set (map res data)) < Min (set (unique (nd_values data)))
      then Min (set (map res data)) # unique (nd_values data) else unique (nd_values data))"

definition cohn_upper :: "real list \<Rightarrow> nat \<Rightarrow> bound" where
  "cohn_upper ls i = (if i + 1 < length ls then Finite (ls ! (i + 1)) else Infinity)"

definition cohn_entry :: "obs list \<Rightarrow> real list \<Rightarrow> nat \<Rightarrow> cohn_row" where
  "cohn_entry data ls i =
     \<lparr>DL = ls ! i, lower = ls ! i, upper = cohn_upper ls i,
      A = cohn_A data (ls ! i) (cohn_upper ls i), B = cohn_B data (ls ! i),
      C = cohn_C data (ls ! i)\<rparr>"

definition PE_next :: "dl_row \<Rightarrow> float64 \<Rightarrow> float64" where
  "PE_next d p = fadd p (fmul (fdiv (col_A d) (fadd (col_A d) (col_B d))) (fsub (Some 1) p))"

definition rank_reset :: "('a indexed_scheme) list \<Rightarrow> nat \<Rightarrow> bool" where
  "rank_reset d n \<longleftrightarrow>
     n = 0 \<or> DLIndex (d ! n) \<noteq> DLIndex (d ! (n - 1)) \<or> qual (d ! n) \<noteq> qual (d ! (n - 1))"

definition tied_detects :: "('a normranked_scheme) list \<Rightarrow> nat \<Rightarrow> real \<Rightarrow> ('a normranked_scheme) list" where
  "tied_detects d i v = filter (\<lambda>s. DLIndex s = i \<and> res s = v \<and> qual s \<noteq> ''ND'') d"

definition norm_ranks_loop :: "nat \<Rightarrow> normranked list \<Rightarrow> normranked list" where
  "norm_ranks_loop k d = fold (\<lambda>n d. norm_rank_step d n) [0..<k] d"

definition ranks_init :: "nat \<Rightarrow> indexed list \<Rightarrow> normranked list" where
  "ranks_init n_tot data = map (\<lambda>r. \<lparr>res = res r, qual = qual r, DLIndex = DLIndex r,
                          Norm_Ranks = real n_tot\<rparr>) data"

definition with_avg :: "normranked list \<Rightarrow> normranked \<Rightarrow> ranked" where
  "with_avg d r = \<lparr>res = res r, qual = qual r, DLIndex = DLIndex r,
                    Norm_Ranks = Norm_Ranks r, Avg_Ranks = avgrank d r\<rparr>"

definition normalize_qual :: "string \<Rightarrow> obs list \<Rightarrow> obs list" where
  "normalize_qual ndsymbol data =
     map (\<lambda>r. r\<lparr>qual := (if qual r = ndsymbol then ''ND'' else ''='')\<rparr>) data"

definition prepared :: "obs list \<Rightarrow> string \<Rightarrow> obs list" where
  "prepared data ndsymbol = rosSort (normalize_qual ndsymbol data) ndsymbol"

definition dl_index :: "obs list \<Rightarrow> real \<Rightarrow> nat" where
  "dl_index sdata x = projr (ros_DL_index (cohn sdata) x)"

definition indexed_rows :: "obs list \<Rightarrow> indexed list" where
  "indexed_rows sdata = map (\<lambda>r. \<lparr>res = res r, qual = qual r, DLIndex = dl_index sdata (res r)\<rparr>) sdata"

definition obs_of :: "'a obs_scheme \<Rightarrow> obs" where
  "obs_of r = \<lparr>res = res r, qual = qual r\<rparr>"

definition passthrough_row :: "ranked \<Rightarrow> estimated" where
  "passthrough_row r = \<lparr>res = res r, qual = qual r, DLIndex = DLIndex r,
       Norm_Ranks = Norm_Ranks r, Avg_Ranks = Avg_Ranks r, plot_pos = None,
       Zprelim = None, modeled_data = None, final_data = Some (res r)\<rparr>"

definition half_DL_row :: "ranked \<Rightarrow> estimated" where
  "half_DL_row r = \<lparr>res = res r, qual = qual r, DLIndex = DLIndex r,
       Norm_Ranks = Norm_Ranks r, Avg_Ranks = Avg_Ranks r, plot_pos = None,
       Zprelim = None, modeled_data = None, final_data = select_half_DLs r\<rparr>"

definition too_few_detects :: "nat \<Rightarrow> nat \<Rightarrow> bool" where
  "too_few_detects n_tot n_nd \<longleftrightarrow> int n_tot - int n_nd < 2 \<or> real n_nd / real n_tot > 0.8"

definition ranked_rows :: "obs list \<Rightarrow> string \<Rightarrow> ranked list" where
  "ranked_rows data ndsymbol =
     ros_ranks (length data) (indexed_rows (prepared data ndsymbol))"

definition count_nd :: "obs list \<Rightarrow> string \<Rightarrow> nat" where
  "count_nd data ndsymbol = length (filter (\<lambda>r. qual r = ndsymbol) data)"

definition ranked_of :: "estimated \<Rightarrow> ranked" where
  "ranked_of r = \<lparr>res = res r, qual = qual r, DLIndex = DLIndex r,
                  Norm_Ranks = Norm_Ranks r, Avg_Ranks = Avg_Ranks r\<rparr>"

definition plotting_pos :: "dl_row list \<Rightarrow> ranked \<Rightarrow> float64" where
  "plotting_pos dls r = projr (ros_plotting_pos dls r)"

definition detects :: "ranked list \<Rightarrow> ranked list" where
  "detects data = filter (\<lambda>r. qual r \<noteq> ''ND'') data"

definition regression_fit ::
  "(float64 \<Rightarrow> float64) \<Rightarrow> (float64 list \<Rightarrow> float64 list \<Rightarrow> float64 \<times> float64) \<Rightarrow> bool \<Rightarrow>
   dl_row list \<Rightarrow> ranked list \<Rightarrow> float64 \<times> float64" where
  "regression_fit ppf linregress fitlogs dls data =
     linregress (map (\<lambda>r. ppf (plotting_pos dls r)) (detects data))
                (if fitlogs then map (\<lambda>r. np_log (res r)) (detects data)
                 else map (\<lambda>r. Some (res r)) (detects data))"

definition modeled :: "(float64 \<Rightarrow> float64) \<Rightarrow> float64 \<times> float64 \<Rightarrow> dl_row list \<Rightarrow> ranked \<Rightarrow> float64" where
  "modeled ppf f dls r =
     (if qual r = ''ND'' then np_exp (fadd (fmul (fst f) (ppf (plotting_pos dls r))) (snd f))
      else None)"

definition regression_row ::
  "(float64 \<Rightarrow> float64) \<Rightarrow> float64 \<times> float64 \<Rightarrow> dl_row list \<Rightarrow> ranked \<Rightarrow> estimated" where
  "regression_row ppf f dls r =
     \<lparr>res = res r, qual = qual r, DLIndex = DLIndex r, Norm_Ranks = Norm_Ranks r,
      Avg_Ranks = Avg_Ranks r, plot_pos = Some (plotting_pos dls r),
      Zprelim = Some (ppf (plotting_pos dls r)), modeled_data = Some (modeled ppf f dls r),
      final_data = (if qual r = ''ND'' then modeled ppf f dls r else Some (res r))\<rparr>"

section \<open>Lemmas\<close>

subsection \<open>The detection-limit table\<close>

lemma set_unique [simp]: "set (unique xs) = set xs"
  by (induction xs rule: unique.induct) auto

lemma unique_Nil_iff [simp]: "unique xs = [] \<longleftrightarrow> xs = []"
  by (cases xs) auto

lemma cohn_limits_nonempty: "nd_values data \<noteq> [] \<Longrightarrow> cohn_limits data \<noteq> []"
  by (simp add: cohn_limits_def)

lemma uppers_eq:
  assumes "ls \<noteq> []"
  shows "(if 1 < length ls then map Finite (tl ls) @ [Infinity] else map (\<lambda>_. Infinity) ls)
         = map (cohn_upper ls) [0..<length ls]"
proof (rule nth_equalityI)
  show "length (if 1 < length ls then map Finite (tl ls) @ [Infinity] else map (\<lambda>_. Infinity) ls)
        = length (map (cohn_upper ls) [0..<length ls])"
    using assms by (cases ls) auto
next
  fix i
  assume "i < length (if 1 < length ls then map Finite (tl ls) @ [Infinity] else map (\<lambda>_. Infinity) ls)"
  then have i: "i < length ls" using assms by (cases ls) (auto split: if_splits)
  show "(if 1 < length ls then map Finite (tl ls) @ [Infinity] else map (\<lambda>_. Infinity) ls) ! i
        = map (cohn_upper ls) [0..<length ls] ! i"
  proof (cases "1 < length ls")
    case True
    then show ?thesis using i
      by (auto simp: cohn_upper_def nth_append nth_tl)
  next
    case False
    then have "length ls = 1" using assms by (cases ls) auto
    then show ?thesis using i by (auto simp: cohn_upper_def)
  qed
qed

lemma cohn_empty: "nd_values data = [] \<Longrightarrow> cohn data = []"
  by (simp add: cohn_def nd_values_def)

lemma cohn_rows:
  assumes "nd_values data \<noteq> []"
  shows "cohn data = map (\<lambda>i. \<lparr>counts = Some (cohn_entry data (cohn_limits data) i), PE = Some 0\<rparr>)
                        [0..<length (cohn_limits data)] @ [\<lparr>counts = None, PE = Some 0\<rparr>]"
proof -
  let ?ls = "cohn_limits data"
  have ne: "?ls \<noteq> []" using assms by (rule cohn_limits_nonempty)
  have z: "zip ?ls (map (cohn_upper ?ls) [0..<length ?ls])
           = map (\<lambda>i. (?ls ! i, cohn_upper ?ls i)) [0..<length ?ls]"
    by (rule nth_equalityI) auto
  have "cohn data = map (\<lambda>c. \<lparr>counts = Some c, PE = Some 0\<rparr>)
          (map (\<lambda>(d, u). \<lparr>DL = d, lower = d, upper = u, A = cohn_A data d u,
                           B = cohn_B data d, C = cohn_C data d\<rparr>)
            (zip ?ls (if 1 < length ?ls then map Finite (tl ?ls) @ [Infinity]
                      else map (\<lambda>_. Infinity) ?ls)))
          @ [\<lparr>counts = None, PE = Some 0\<rparr>]"
    using assms unfolding cohn_def nd_values_def cohn_limits_def Let_def by simp
  also have "\<dots> = map (\<lambda>i. \<lparr>counts = Some (cohn_entry data ?ls i), PE = Some 0\<rparr>)
                        [0..<length ?ls] @ [\<lparr>counts = None, PE = Some 0\<rparr>]"
    unfolding uppers_eq[OF ne] z by (simp add: cohn_entry_def o_def)
  finally show ?thesis .
qed

lemma cohn_limits_subset:
  "nd_values data \<noteq> [] \<Longrightarrow> set (cohn_limits data) \<subseteq> set (map res data)"
proof -
  assume ne: "nd_values data \<noteq> []"
  have "set (nd_values data) \<subseteq> set (map res data)" by (auto simp: nd_values_def)
  moreover have "Min (set (map res data)) \<in> set (map res data)"
    using ne by (intro Min_in) (auto simp: nd_values_def filter_empty_conv)
  ultimately show ?thesis by (auto simp: cohn_limits_def)
qed

text \<open>Each limit is a censored value, or it is the least result, a detect below every censored value.\<close>

lemma cohn_limits_cases:
  assumes ne: "nd_values data \<noteq> []" and i: "i < length (cohn_limits data)"
  shows "cohn_limits data ! i \<in> set (nd_values data)
         \<or> (i = 0 \<and> cohn_limits data ! 0 = Min (set (map res data))
            \<and> Min (set (map res data)) < Min (set (nd_values data))
            \<and> tl (cohn_limits data) = unique (nd_values data))"
proof (cases "Min (set (map res data)) < Min (set (unique (nd_values data)))")
  case True
  then have ls: "cohn_limits data = Min (set (map res data)) # unique (nd_values data)"
    by (simp add: cohn_limits_def)
  show ?thesis
  proof (cases i)
    case 0
    then show ?thesis using ls True by simp
  next
    case (Suc k)
    then have "k < length (unique (nd_values data))" using i ls by simp
    then have "unique (nd_values data) ! k \<in> set (unique (nd_values data))" by (rule nth_mem)
    then show ?thesis using ls Suc by simp
  qed
next
  case False
  then have ls: "cohn_limits data = unique (nd_values data)" by (simp add: cohn_limits_def)
  have "cohn_limits data ! i \<in> set (cohn_limits data)" using i by (rule nth_mem)
  then show ?thesis using ls by simp
qed

lemma cohn_B_pos:
  assumes "d \<in> set (nd_values data)"
  shows "0 < cohn_B data d"
proof -
  from assms obtain r where r: "r \<in> set data" "qual r = ''ND''" "res r = d"
    by (auto simp: nd_values_def)
  then have "r \<in> set (filter (\<lambda>r. res r \<le> d \<and> qual r = ''ND'') data)" by simp
  then have "0 < length (filter (\<lambda>r. res r \<le> d \<and> qual r = ''ND'') data)"
    by (rule length_pos_if_in_set)
  then show ?thesis by (simp add: cohn_B_def Let_def)
qed

lemma cohn_denominator_pos:
  assumes ne: "nd_values data \<noteq> []" and i: "i < length (cohn_limits data)"
  shows "0 < A (cohn_entry data (cohn_limits data) i) + B (cohn_entry data (cohn_limits data) i)"
proof -
  let ?ls = "cohn_limits data"
  from cohn_limits_cases[OF ne i] show ?thesis
  proof
    assume "?ls ! i \<in> set (nd_values data)"
    then have "0 < cohn_B data (?ls ! i)" by (rule cohn_B_pos)
    then show ?thesis by (simp add: cohn_entry_def)
  next
    assume h: "i = 0 \<and> ?ls ! 0 = Min (set (map res data))
            \<and> Min (set (map res data)) < Min (set (nd_values data))
            \<and> tl ?ls = unique (nd_values data)"
    let ?m = "Min (set (map res data))"
    have dne: "data \<noteq> []" using ne by (auto simp: nd_values_def)
    then have "?m \<in> set (map res data)" by (intro Min_in) auto
    then obtain r where r: "r \<in> set data" "res r = ?m" by auto
    have lt: "?m < x" if "x \<in> set (nd_values data)" for x
    proof -
      have "Min (set (nd_values data)) \<le> x" using that by (intro Min_le) auto
      then show ?thesis using h by linarith
    qed
    have det: "qual r \<noteq> ''ND''"
    proof
      assume "qual r = ''ND''"
      then have "?m \<in> set (nd_values data)" using r by (force simp: nd_values_def)
      then have "?m < ?m" by (rule lt)
      then show False by simp
    qed
    have up: "below ?m (cohn_upper ?ls 0)"
    proof (cases "0 + 1 < length ?ls")
      case True
      then have e: "?ls ! 1 = tl ?ls ! 0" by (simp add: nth_tl)
      have "0 < length (tl ?ls)" using True by simp
      then have "tl ?ls ! 0 \<in> set (tl ?ls)" by (rule nth_mem)
      then have "?ls ! 1 \<in> set (nd_values data)" using h e by simp
      then have "?m < ?ls ! 1" by (rule lt)
      then show ?thesis using True by (simp add: cohn_upper_def)
    next
      case False
      then show ?thesis by (simp add: cohn_upper_def)
    qed
    have "?m \<le> res r \<and> below (res r) (cohn_upper ?ls 0) \<and> qual r \<noteq> ''ND''"
      using det up by (simp only: r(2)) simp
    then have "r \<in> set (filter (\<lambda>r. ?m \<le> res r \<and> below (res r) (cohn_upper ?ls 0) \<and> qual r \<noteq> ''ND'') data)"
      using r(1) by (simp only: set_filter mem_Collect_eq) simp
    then have "0 < cohn_A data ?m (cohn_upper ?ls 0)"
      unfolding cohn_A_def by (rule length_pos_if_in_set)
    then show ?thesis using h by (simp add: cohn_entry_def)
  qed
qed

subsection \<open>The backward recursion\<close>

lemma PE_step_length [simp]: "length (PE_step j dls) = length dls"
  by (simp add: PE_step_def)

lemma PE_step_counts: "i < length dls \<Longrightarrow> counts (PE_step j dls ! i) = counts (dls ! i)"
  by (cases "i = j") (simp_all add: PE_step_def)

lemma PE_step_other: "i \<noteq> j \<Longrightarrow> PE_step j dls ! i = dls ! i"
  by (simp add: PE_step_def)

lemma PE_step_at:
  "j < length dls \<Longrightarrow> PE (PE_step j dls ! j) = PE_next (dls ! j) (PE (dls ! (j + 1)))"
  by (simp add: PE_step_def PE_next_def)

lemma PE_next_counts: "counts d = counts d' \<Longrightarrow> PE_next d p = PE_next d' p"
  by (simp add: PE_next_def col_A_def col_B_def)

lemma fold_PE_step:
  "k < length dls \<Longrightarrow>
   length (fold PE_step (rev [0..<k]) dls) = length dls \<and>
   (\<forall>i. k \<le> i \<longrightarrow> fold PE_step (rev [0..<k]) dls ! i = dls ! i) \<and>
   (\<forall>i < length dls. counts (fold PE_step (rev [0..<k]) dls ! i) = counts (dls ! i)) \<and>
   (\<forall>i < k. PE (fold PE_step (rev [0..<k]) dls ! i)
        = PE_next (dls ! i) (PE (fold PE_step (rev [0..<k]) dls ! (i + 1))))"
proof (induction k arbitrary: dls)
  case 0
  then show ?case by simp
next
  case (Suc k)
  let ?d = "PE_step k dls"
  let ?t = "fold PE_step (rev [0..<k]) ?d"
  have t: "fold PE_step (rev [0..<Suc k]) dls = ?t" by simp
  have k: "k < length ?d" using Suc.prems by simp
  note ih = Suc.IH[OF k]
  have len: "length ?t = length dls" using ih by simp
  have same: "?t ! i = dls ! i" if "Suc k \<le> i" for i
  proof -
    have "?t ! i = ?d ! i" using ih that by simp
    also have "\<dots> = dls ! i" using that by (simp add: PE_step_other)
    finally show ?thesis .
  qed
  have cnt: "counts (?t ! i) = counts (dls ! i)" if "i < length dls" for i
  proof -
    have "counts (?t ! i) = counts (?d ! i)" using ih that by simp
    then show ?thesis using that by (simp add: PE_step_counts)
  qed
  have rec: "PE (?t ! i) = PE_next (dls ! i) (PE (?t ! (i + 1)))" if "i < Suc k" for i
  proof (cases "i = k")
    case True
    have "?t ! k = ?d ! k" using ih by simp
    moreover have "?t ! (k + 1) = dls ! (k + 1)" using same[of "k + 1"] by simp
    moreover have "PE (?d ! k) = PE_next (dls ! k) (PE (dls ! (k + 1)))"
      using Suc.prems by (simp add: PE_step_at)
    ultimately show ?thesis using True by simp
  next
    case False
    then have ik: "i < k" using that by simp
    then have "PE (?t ! i) = PE_next (?d ! i) (PE (?t ! (i + 1)))" using ih by simp
    moreover have "counts (?d ! i) = counts (dls ! i)"
      using ik Suc.prems by (simp add: PE_step_counts)
    ultimately show ?thesis using PE_next_counts by metis
  qed
  show ?case unfolding t using len same cnt rec by blast
qed

lemma compute_PE_props:
  assumes "dls \<noteq> []"
  shows "length (compute_PE dls) = length dls"
    and "compute_PE dls ! (length dls - 1) = dls ! (length dls - 1)"
    and "i < length dls \<Longrightarrow> counts (compute_PE dls ! i) = counts (dls ! i)"
    and "i + 1 < length dls \<Longrightarrow>
         PE (compute_PE dls ! i) = PE_next (dls ! i) (PE (compute_PE dls ! (i + 1)))"
proof -
  have k: "length dls - 1 < length dls" using assms by (cases dls) auto
  note f = fold_PE_step[OF k, folded compute_PE_def]
  show "length (compute_PE dls) = length dls" using f by simp
  show "compute_PE dls ! (length dls - 1) = dls ! (length dls - 1)" using f by simp
  show "i < length dls \<Longrightarrow> counts (compute_PE dls ! i) = counts (dls ! i)" using f by simp
  show "i + 1 < length dls \<Longrightarrow>
         PE (compute_PE dls ! i) = PE_next (dls ! i) (PE (compute_PE dls ! (i + 1)))"
    using f by simp
qed

lemma compute_PE_Nil [simp]: "compute_PE [] = []"
  by (simp add: compute_PE_def)

lemma PE_next_Some:
  assumes "counts d = Some c" "0 < A c + B c"
  shows "PE_next d (Some p) = Some (p + real (A c) / (real (A c) + real (B c)) * (1 - p))"
proof -
  have "real (A c) + real (B c) \<noteq> 0" using assms(2)
    by (metis of_nat_0_less_iff of_nat_add less_irrefl)
  then show ?thesis using assms(1) by (simp add: PE_next_def col_A_def col_B_def)
qed

lemma PE_update_bounds:
  fixes p :: real
  assumes "0 \<le> p" "p \<le> 1" "0 < a + b"
  shows "0 \<le> p + real a / (real a + real b) * (1 - p)"
    and "p + real a / (real a + real b) * (1 - p) \<le> 1"
proof -
  let ?r = "real a / (real a + real b)"
  have pos: "0 < real a + real b" using assms(3) by (metis of_nat_0_less_iff of_nat_add)
  have r0: "0 \<le> ?r" using pos by simp
  have r1: "?r \<le> 1" using pos by (simp add: divide_le_eq)
  have "0 \<le> ?r * (1 - p)" using r0 assms(2) by simp
  then show "0 \<le> p + ?r * (1 - p)" using assms(1) by linarith
  have "?r * (1 - p) \<le> 1 * (1 - p)" using r1 assms(2) by (intro mult_right_mono) auto
  then show "p + ?r * (1 - p) \<le> 1" by simp
qed

subsection \<open>Counting lemmas\<close>

lemma count_split:
  "length (filter (\<lambda>r. res r \<le> lo \<and> qual r = ''ND'') data)
     + length (filter (\<lambda>r. res r < lo \<and> qual r \<noteq> ''ND'') data)
   = length (filter (\<lambda>r. res r < lo) data)
     + length (filter (\<lambda>r. qual r = ''ND'' \<and> res r = lo) data)"
  by (induction data) auto

lemma cohn_C_eq:
  "cohn_C data lo = length (filter (\<lambda>r. qual r = ''ND'' \<and> res r = lo) data)"
  unfolding cohn_C_def by (induction data) auto

lemma cohn_row_cases:
  assumes "d \<in> set (cohn data)" "counts d = Some c"
  shows "nd_values data \<noteq> [] \<and>
         (\<exists>i < length (cohn_limits data). c = cohn_entry data (cohn_limits data) i)"
proof -
  have ne: "nd_values data \<noteq> []" using assms(1) cohn_empty by fastforce
  from assms show ?thesis unfolding cohn_rows[OF ne] using ne by auto
qed

subsection \<open>Worked tables\<close>

lemma cohn_example_sub_minimum:
  "cohn [\<lparr>res = 2, qual = ''ND''\<rparr>, \<lparr>res = 1, qual = ''=''\<rparr>, \<lparr>res = 3, qual = ''=''\<rparr>,
         \<lparr>res = 4, qual = ''=''\<rparr>]
   = [\<lparr>counts = Some \<lparr>DL = 1, lower = 1, upper = Finite 2, A = 1, B = 0, C = 0\<rparr>, PE = Some 0\<rparr>,
      \<lparr>counts = Some \<lparr>DL = 2, lower = 2, upper = Infinity, A = 2, B = 2, C = 1\<rparr>, PE = Some 0\<rparr>,
      \<lparr>counts = None, PE = Some 0\<rparr>]"
  by code_simp

subsection \<open>The ranks\<close>

lemma norm_rank_step_length [simp]: "length (norm_rank_step d n) = length d"
  by (simp add: norm_rank_step_def)

lemma norm_rank_step_other: "i \<noteq> n \<Longrightarrow> norm_rank_step d n ! i = d ! i"
  by (simp add: norm_rank_step_def)

lemma norm_rank_step_keeps:
  "i < length d \<Longrightarrow> res (norm_rank_step d n ! i) = res (d ! i)
     \<and> qual (norm_rank_step d n ! i) = qual (d ! i)
     \<and> DLIndex (norm_rank_step d n ! i) = DLIndex (d ! i)"
  by (cases "i = n") (simp_all add: norm_rank_step_def)

lemma norm_rank_step_at:
  "n < length d \<Longrightarrow> Norm_Ranks (norm_rank_step d n ! n)
     = (if rank_reset d n then 1 else Norm_Ranks (d ! (n - 1)) + 1)"
  by (simp add: norm_rank_step_def rank_reset_def)

lemma rank_reset_cong:
  assumes "\<And>i. i \<le> n \<Longrightarrow> DLIndex (d ! i) = DLIndex (e ! i) \<and> qual (d ! i) = qual (e ! i)"
  shows "rank_reset d n = rank_reset e n"
  unfolding rank_reset_def using assms[of n] assms[of "n - 1"] by simp

lemma norm_ranks_loop_Suc: "norm_ranks_loop (Suc k) d = norm_rank_step (norm_ranks_loop k d) k"
  by (simp add: norm_ranks_loop_def)

lemma norm_ranks_loop_props:
  "k \<le> length d \<Longrightarrow>
   length (norm_ranks_loop k d) = length d \<and>
   (\<forall>i. k \<le> i \<longrightarrow> norm_ranks_loop k d ! i = d ! i) \<and>
   (\<forall>i < length d. res (norm_ranks_loop k d ! i) = res (d ! i)
        \<and> qual (norm_ranks_loop k d ! i) = qual (d ! i)
        \<and> DLIndex (norm_ranks_loop k d ! i) = DLIndex (d ! i)) \<and>
   (\<forall>i < k. Norm_Ranks (norm_ranks_loop k d ! i)
        = (if rank_reset d i then 1 else Norm_Ranks (norm_ranks_loop k d ! (i - 1)) + 1))"
proof (induction k)
  case 0
  then show ?case by (simp add: norm_ranks_loop_def)
next
  case (Suc k)
  let ?s = "norm_ranks_loop k d"
  let ?t = "norm_rank_step ?s k"
  have k: "k \<le> length d" "k < length d" using Suc.prems by simp_all
  note ih = Suc.IH[OF k(1)]
  have len: "length ?s = length d" using ih by simp
  have keep: "res (?s ! i) = res (d ! i) \<and> qual (?s ! i) = qual (d ! i)
              \<and> DLIndex (?s ! i) = DLIndex (d ! i)" if "i < length d" for i
    using ih that by simp
  have p1: "length ?t = length d" using len by simp
  have p2: "?t ! i = d ! i" if "Suc k \<le> i" for i
    using that ih by (simp add: norm_rank_step_other)
  have p3: "res (?t ! i) = res (d ! i) \<and> qual (?t ! i) = qual (d ! i)
            \<and> DLIndex (?t ! i) = DLIndex (d ! i)" if "i < length d" for i
    using that keep[OF that] norm_rank_step_keeps[of i ?s k] len by simp
  have rs: "rank_reset ?s k = rank_reset d k"
    by (rule rank_reset_cong) (use keep k in auto)
  have p4: "Norm_Ranks (?t ! i) = (if rank_reset d i then 1 else Norm_Ranks (?t ! (i - 1)) + 1)"
    if "i < Suc k" for i
  proof (cases "i = k")
    case True
    have "Norm_Ranks (?t ! k) = (if rank_reset ?s k then 1 else Norm_Ranks (?s ! (k - 1)) + 1)"
      by (rule norm_rank_step_at) (use len k in simp)
    moreover have "\<not> rank_reset d k \<Longrightarrow> ?t ! (k - 1) = ?s ! (k - 1)"
      by (rule norm_rank_step_other) (auto simp: rank_reset_def)
    ultimately show ?thesis using True rs by simp
  next
    case False
    then have ik: "i < k" using that by simp
    then have "?t ! i = ?s ! i" "?t ! (i - 1) = ?s ! (i - 1)"
      by (simp_all add: norm_rank_step_other)
    then show ?thesis using ih ik by simp
  qed
  show ?case unfolding norm_ranks_loop_Suc using p1 p2 p3 p4 by blast
qed

lemma ros_ranks_eq:
  "ros_ranks n data =
     map (with_avg (norm_ranks_loop (length data) (ranks_init n data)))
         (norm_ranks_loop (length data) (ranks_init n data))"
  by (simp add: ros_ranks_def Let_def ranks_init_def with_avg_def norm_ranks_loop_def)

lemma with_avg_fields [simp]:
  "res (with_avg d r) = res r" "qual (with_avg d r) = qual r"
  "DLIndex (with_avg d r) = DLIndex r" "Norm_Ranks (with_avg d r) = Norm_Ranks r"
  "Avg_Ranks (with_avg d r) = avgrank d r"
  by (simp_all add: with_avg_def)

lemma tied_detects_with_avg:
  "map Norm_Ranks (tied_detects (map (with_avg e) d) i v) = map Norm_Ranks (tied_detects d i v)"
  by (induction d) (auto simp: tied_detects_def)

lemma avgrank_detect:
  "qual r \<noteq> ''ND'' \<Longrightarrow> avgrank d r = mean (map Norm_Ranks (tied_detects d (DLIndex r) (res r)))"
  by (simp add: avgrank_def tied_detects_def)

lemma ros_ranks_props:
  fixes data :: "indexed list" and n :: nat
  defines "R \<equiv> ros_ranks n data"
  shows "length R = length data"
    and "i < length data \<Longrightarrow> res (R ! i) = res (data ! i) \<and> qual (R ! i) = qual (data ! i)
            \<and> DLIndex (R ! i) = DLIndex (data ! i)"
    and "i < length data \<Longrightarrow> Norm_Ranks (R ! i)
            = (if rank_reset data i then 1 else Norm_Ranks (R ! (i - 1)) + 1)"
    and "i < length data \<Longrightarrow> qual (R ! i) = ''ND'' \<Longrightarrow> Avg_Ranks (R ! i) = Some (Norm_Ranks (R ! i))"
    and "i < length data \<Longrightarrow> qual (R ! i) \<noteq> ''ND'' \<Longrightarrow>
           tied_detects R (DLIndex (R ! i)) (res (R ! i)) \<noteq> [] \<and>
           Avg_Ranks (R ! i) = mean (map Norm_Ranks (tied_detects R (DLIndex (R ! i)) (res (R ! i))))"
proof -
  let ?d0 = "ranks_init n data"
  let ?d1 = "norm_ranks_loop (length data) ?d0"
  have l0: "length ?d0 = length data" by (simp add: ranks_init_def)
  have "length data \<le> length ?d0" using l0 by simp
  note lp = norm_ranks_loop_props[OF this]
  have l1: "length ?d1 = length data" using lp l0 by simp
  have R: "R = map (with_avg ?d1) ?d1" unfolding R_def by (rule ros_ranks_eq)
  show len: "length R = length data" using l1 by (simp add: R)
  have nth: "R ! i = with_avg ?d1 (?d1 ! i)" if "i < length data" for i
    using that l1 by (simp add: R)
  have f0: "res (?d0 ! i) = res (data ! i) \<and> qual (?d0 ! i) = qual (data ! i)
            \<and> DLIndex (?d0 ! i) = DLIndex (data ! i)" if "i < length data" for i
    using that by (simp add: ranks_init_def)
  have f1: "res (?d1 ! i) = res (data ! i) \<and> qual (?d1 ! i) = qual (data ! i)
            \<and> DLIndex (?d1 ! i) = DLIndex (data ! i)" if "i < length data" for i
    using lp that l0 f0[OF that] by simp
  show keep: "res (R ! i) = res (data ! i) \<and> qual (R ! i) = qual (data ! i)
            \<and> DLIndex (R ! i) = DLIndex (data ! i)" if "i < length data" for i
    using nth[OF that] f1[OF that] by simp
  show "Norm_Ranks (R ! i) = (if rank_reset data i then 1 else Norm_Ranks (R ! (i - 1)) + 1)"
    if i: "i < length data" for i
  proof -
    have rs: "rank_reset ?d0 i = rank_reset data i"
      by (rule rank_reset_cong) (use f0 i in auto)
    have im: "i - 1 < length data" using i by simp
    have "Norm_Ranks (?d1 ! i) = (if rank_reset ?d0 i then 1 else Norm_Ranks (?d1 ! (i - 1)) + 1)"
      using lp i by simp
    then show ?thesis using nth[OF i] nth[OF im] rs by simp
  qed
  show "Avg_Ranks (R ! i) = Some (Norm_Ranks (R ! i))"
    if "i < length data" "qual (R ! i) = ''ND''" for i
    using that nth[OF that(1)] by (simp add: avgrank_def)
  show "tied_detects R (DLIndex (R ! i)) (res (R ! i)) \<noteq> [] \<and>
        Avg_Ranks (R ! i) = mean (map Norm_Ranks (tied_detects R (DLIndex (R ! i)) (res (R ! i))))"
    if i: "i < length data" and q: "qual (R ! i) \<noteq> ''ND''" for i
  proof -
    have "R ! i \<in> set R" using i len by simp
    then have "R ! i \<in> set (tied_detects R (DLIndex (R ! i)) (res (R ! i)))"
      using q by (simp add: tied_detects_def)
    then have ne: "tied_detects R (DLIndex (R ! i)) (res (R ! i)) \<noteq> []" by auto
    have "qual (?d1 ! i) \<noteq> ''ND''" using q nth[OF i] by simp
    then have "avgrank ?d1 (?d1 ! i)
               = mean (map Norm_Ranks (tied_detects ?d1 (DLIndex (?d1 ! i)) (res (?d1 ! i))))"
      by (rule avgrank_detect)
    then have "Avg_Ranks (R ! i)
               = mean (map Norm_Ranks (tied_detects R (DLIndex (R ! i)) (res (R ! i))))"
      using nth[OF i] by (simp add: R tied_detects_with_avg)
    then show ?thesis using ne by simp
  qed
qed

lemma ros_ranks_example_ties:
  "ros_ranks 4 [\<lparr>res = 2, qual = ''ND'', DLIndex = 0\<rparr>, \<lparr>res = 5, qual = ''='', DLIndex = 0\<rparr>,
                \<lparr>res = 5, qual = ''='', DLIndex = 0\<rparr>, \<lparr>res = 7, qual = ''='', DLIndex = 0\<rparr>]
   = [\<lparr>res = 2, qual = ''ND'', DLIndex = 0, Norm_Ranks = 1, Avg_Ranks = Some 1\<rparr>,
      \<lparr>res = 5, qual = ''='', DLIndex = 0, Norm_Ranks = 1, Avg_Ranks = Some (3 / 2)\<rparr>,
      \<lparr>res = 5, qual = ''='', DLIndex = 0, Norm_Ranks = 2, Avg_Ranks = Some (3 / 2)\<rparr>,
      \<lparr>res = 7, qual = ''='', DLIndex = 0, Norm_Ranks = 3, Avg_Ranks = Some 3\<rparr>]"
  by code_simp

subsection \<open>The detection-limit index and the constructor\<close>

lemma apply_rows_Inr:
  "(\<And>x. x \<in> set xs \<Longrightarrow> \<exists>y. f x = Inr y) \<Longrightarrow> apply_rows f xs = Inr (map (\<lambda>x. projr (f x)) xs)"
proof (induction xs)
  case Nil
  then show ?case by simp
next
  case (Cons a xs)
  from Cons.prems[of a] obtain y where y: "f a = Inr y" by auto
  have "apply_rows f xs = Inr (map (\<lambda>x. projr (f x)) xs)"
    by (rule Cons.IH) (use Cons.prems in auto)
  then show ?case using y by simp
qed

lemma cohn_length:
  "nd_values data \<noteq> [] \<Longrightarrow> length (cohn data) = length (cohn_limits data) + 1"
  by (simp add: cohn_rows)

lemma cohn_nth:
  assumes "nd_values data \<noteq> []"
  shows "i < length (cohn_limits data) \<Longrightarrow>
           cohn data ! i = \<lparr>counts = Some (cohn_entry data (cohn_limits data) i), PE = Some 0\<rparr>"
    and "cohn data ! length (cohn_limits data) = \<lparr>counts = None, PE = Some 0\<rparr>"
  by (simp_all add: cohn_rows[OF assms] nth_append)

lemma cohn_limit_below:
  assumes ne: "nd_values data \<noteq> []" and x: "x \<in> set (map res data)"
  shows "\<exists>k < length (cohn_limits data). cohn_limits data ! k \<le> x"
proof -
  let ?m = "Min (set (map res data))"
  let ?u = "unique (nd_values data)"
  have mx: "?m \<le> x" using x by (intro Min_le) auto
  have une: "?u \<noteq> []" using ne by simp
  have "\<exists>l \<in> set (cohn_limits data). l \<le> x"
  proof (cases "?m < Min (set ?u)")
    case True
    then have "cohn_limits data = ?m # ?u" by (simp add: cohn_limits_def)
    then show ?thesis using mx by auto
  next
    case False
    then have ls: "cohn_limits data = ?u" by (simp add: cohn_limits_def)
    have "Min (set ?u) \<in> set ?u" using une by (intro Min_in) auto
    moreover have "Min (set ?u) \<le> x" using False mx by linarith
    ultimately show ?thesis using ls by auto
  qed
  then show ?thesis by (auto simp: in_set_conv_nth)
qed

lemma last_filter_upt:
  assumes "k < n" "P k"
  shows "filter P [0..<n] \<noteq> [] \<and> last (filter P [0..<n]) < n \<and> P (last (filter P [0..<n]))"
proof -
  have "k \<in> set (filter P [0..<n])" using assms by simp
  then have ne: "filter P [0..<n] \<noteq> []" by (metis empty_iff empty_set)
  then have "last (filter P [0..<n]) \<in> set (filter P [0..<n])" by (rule last_in_set)
  then show ?thesis using ne by simp
qed

lemma ros_DL_index_cohn:
  assumes ne: "nd_values data \<noteq> []" and x: "x \<in> set (map res data)"
  shows "\<exists>i < length (cohn_limits data). ros_DL_index (cohn data) x = Inr i"
proof -
  let ?n = "length (cohn_limits data)"
  define P where "P = (\<lambda>i. case counts (cohn data ! i) of None \<Rightarrow> False | Some c \<Rightarrow> DL c \<le> x)"
  define l where "l = last (filter P [0..<length (cohn data)])"
  from cohn_limit_below[OF ne x] obtain k where k: "k < ?n" "cohn_limits data ! k \<le> x" by blast
  have len: "length (cohn data) = ?n + 1" using ne by (rule cohn_length)
  have Pk: "P k" using k cohn_nth(1)[OF ne k(1)] by (simp add: P_def cohn_entry_def)
  have kl: "k < length (cohn data)" using k len by simp
  from last_filter_upt[of k "length (cohn data)" P, OF kl Pk]
  have f: "filter P [0..<length (cohn data)] \<noteq> []" "l < length (cohn data)" "P l"
    by (simp_all add: l_def)
  have "l \<noteq> ?n"
  proof
    assume "l = ?n"
    then show False using f(3) cohn_nth(2)[OF ne] by (simp add: P_def)
  qed
  then have "l < ?n" using f(2) len by simp
  moreover have "ros_DL_index (cohn data) x = Inr l"
    using f(1) kl unfolding ros_DL_index_def Let_def P_def[symmetric] l_def by auto
  ultimately show ?thesis by blast
qed

lemma ros_DL_index_empty: "nd_values data = [] \<Longrightarrow> ros_DL_index (cohn data) x = Inr 0"
  by (simp add: cohn_empty ros_DL_index_def)

lemma ros_DL_index_total:
  assumes "x \<in> set (map res data)"
  shows "\<exists>i. ros_DL_index (cohn data) x = Inr i"
proof (cases "nd_values data = []")
  case True
  then show ?thesis by (simp add: ros_DL_index_empty)
next
  case False
  from ros_DL_index_cohn[OF False assms] show ?thesis by blast
qed

lemma dl_index_bound:
  "nd_values data \<noteq> [] \<Longrightarrow> x \<in> set (map res data) \<Longrightarrow> dl_index data x < length (cohn_limits data)"
  using ros_DL_index_cohn[of data x] by (auto simp: dl_index_def)

lemma apply_DL_index:
  "apply_rows (\<lambda>r. ros_DL_index (cohn sdata) (res r)) sdata
     = Inr (map (\<lambda>r. dl_index sdata (res r)) sdata)"
  unfolding dl_index_def
  by (rule apply_rows_Inr) (rule ros_DL_index_total, simp)

lemma zip_map_self: "zip xs (map f xs) = map (\<lambda>x. (x, f x)) xs"
  by (induction xs) auto

lemma MR_init_eq:
  assumes "\<not> (data \<noteq> [] \<and> Min (set (map res data)) \<le> 0)"
  shows "MR_init ppf linregress data ndsymbol fitlogs =
     (case estimator ppf linregress fitlogs (length data)
             (length (filter (\<lambda>r. qual r = ndsymbol) data))
             (cohn (prepared data ndsymbol))
             (ros_ranks (length data) (indexed_rows (prepared data ndsymbol))) of
        Inl e \<Rightarrow> Inl e
      | Inr (dls', out, f) \<Rightarrow>
          Inr \<lparr>N_tot = length data, N_nd = length (filter (\<lambda>r. qual r = ndsymbol) data),
               DLs = dls', debug = out, fit = f\<rparr>)"
proof -
  have c: "(data \<noteq> [] \<and> Min (set (map res data)) \<le> 0) = False" using assms by blast
  have "MR_init ppf linregress data ndsymbol fitlogs =
     (case apply_rows (\<lambda>r. ros_DL_index (cohn (prepared data ndsymbol)) (res r))
             (prepared data ndsymbol) of
        Inl e \<Rightarrow> Inl e
      | Inr idx \<Rightarrow>
          (case estimator ppf linregress fitlogs (length data)
                  (length (filter (\<lambda>r. qual r = ndsymbol) data))
                  (cohn (prepared data ndsymbol))
                  (ros_ranks (length data)
                     (map (\<lambda>(r, i). \<lparr>res = res r, qual = qual r, DLIndex = i\<rparr>)
                          (zip (prepared data ndsymbol) idx))) of
             Inl e \<Rightarrow> Inl e
           | Inr (dls', out, f) \<Rightarrow>
               Inr \<lparr>N_tot = length data, N_nd = length (filter (\<lambda>r. qual r = ndsymbol) data),
                    DLs = dls', debug = out, fit = f\<rparr>))"
    unfolding MR_init_def prepared_def normalize_qual_def Let_def c by simp
  then show ?thesis
    by (simp add: apply_DL_index zip_map_self indexed_rows_def o_def)
qed

subsection \<open>The prepared data and the branches of the estimator\<close>

lemma mset_prepared: "mset (prepared data ndsymbol) = mset (normalize_qual ndsymbol data)"
  by (simp add: prepared_def rosSort_def Let_def)

lemma set_prepared: "set (prepared data ndsymbol) = set (normalize_qual ndsymbol data)"
proof -
  have "set_mset (mset (prepared data ndsymbol)) = set_mset (mset (normalize_qual ndsymbol data))"
    by (simp only: mset_prepared)
  then show ?thesis by simp
qed

lemma length_prepared [simp]: "length (prepared data ndsymbol) = length data"
proof -
  have "size (mset (prepared data ndsymbol)) = size (mset (normalize_qual ndsymbol data))"
    by (simp only: mset_prepared)
  then show ?thesis by (simp add: normalize_qual_def)
qed

lemma map_res_normalize_qual: "map res (normalize_qual ndsymbol data) = map res data"
  by (simp add: normalize_qual_def)

lemma mset_res_prepared: "mset (map res (prepared data ndsymbol)) = mset (map res data)"
proof -
  have "image_mset res (mset (prepared data ndsymbol))
        = image_mset res (mset (normalize_qual ndsymbol data))"
    by (simp only: mset_prepared)
  then have "mset (map res (prepared data ndsymbol)) = mset (map res (normalize_qual ndsymbol data))"
    by simp
  then show ?thesis by (simp only: map_res_normalize_qual)
qed

lemma set_res_prepared: "set (map res (prepared data ndsymbol)) = set (map res data)"
proof -
  have "set_mset (mset (map res (prepared data ndsymbol))) = set_mset (mset (map res data))"
    by (simp only: mset_res_prepared)
  then show ?thesis by (simp only: set_mset_mset)
qed

lemma count_ND_normalize_qual:
  "length (filter (\<lambda>r. qual r = ''ND'') (normalize_qual ndsymbol data)) = count_nd data ndsymbol"
  unfolding normalize_qual_def count_nd_def by (induction data) auto

lemma count_ND_prepared:
  "length (filter (\<lambda>r. qual r = ''ND'') (prepared data ndsymbol)) = count_nd data ndsymbol"
proof -
  have "filter_mset (\<lambda>r. qual r = ''ND'') (mset (prepared data ndsymbol))
        = filter_mset (\<lambda>r. qual r = ''ND'') (mset (normalize_qual ndsymbol data))"
    by (simp only: mset_prepared)
  then have "mset (filter (\<lambda>r. qual r = ''ND'') (prepared data ndsymbol))
        = mset (filter (\<lambda>r. qual r = ''ND'') (normalize_qual ndsymbol data))"
    by simp
  then have "length (filter (\<lambda>r. qual r = ''ND'') (prepared data ndsymbol))
        = length (filter (\<lambda>r. qual r = ''ND'') (normalize_qual ndsymbol data))"
    by (rule mset_eq_length)
  then show ?thesis by (simp only: count_ND_normalize_qual)
qed

lemma nd_values_prepared_Nil:
  "nd_values (prepared data ndsymbol) = [] \<longleftrightarrow> count_nd data ndsymbol = 0"
proof -
  have "nd_values (prepared data ndsymbol) = []
        \<longleftrightarrow> length (filter (\<lambda>r. qual r = ''ND'') (prepared data ndsymbol)) = 0"
    unfolding nd_values_def by (simp only: map_is_Nil_conv length_0_conv)
  then show ?thesis by (simp only: count_ND_prepared)
qed

lemma estimator_no_nd:
  "estimator ppf linregress fitlogs n_tot 0 dls data = Inr (dls, map passthrough_row data, None)"
  by (simp add: estimator_def passthrough_row_def)

lemma estimator_fallback:
  "n_nd \<noteq> 0 \<Longrightarrow> too_few_detects n_tot n_nd \<Longrightarrow>
   estimator ppf linregress fitlogs n_tot n_nd dls data = Inr (dls, map half_DL_row data, None)"
  by (simp add: estimator_def half_DL_row_def too_few_detects_def)

lemma MR_init_eq':
  assumes "\<forall>r \<in> set data. 0 < res r"
  shows "MR_init ppf linregress data ndsymbol fitlogs =
     (case estimator ppf linregress fitlogs (length data) (count_nd data ndsymbol)
             (cohn (prepared data ndsymbol)) (ranked_rows data ndsymbol) of
        Inl e \<Rightarrow> Inl e
      | Inr (dls', out, f) \<Rightarrow>
          Inr \<lparr>N_tot = length data, N_nd = count_nd data ndsymbol,
               DLs = dls', debug = out, fit = f\<rparr>)"
proof -
  have "\<not> (data \<noteq> [] \<and> Min (set (map res data)) \<le> 0)"
  proof
    assume a: "data \<noteq> [] \<and> Min (set (map res data)) \<le> 0"
    then have "Min (set (map res data)) \<in> set (map res data)" by (intro Min_in) auto
    then obtain r where "r \<in> set data" "res r = Min (set (map res data))" by auto
    then show False using a assms by force
  qed
  then show ?thesis unfolding count_nd_def ranked_rows_def by (rule MR_init_eq)
qed

lemma ranked_rows_length [simp]: "length (ranked_rows data ndsymbol) = length data"
  by (simp add: ranked_rows_def ros_ranks_props(1) indexed_rows_def)

lemma ranked_rows_nth:
  assumes "i < length data"
  shows "res (ranked_rows data ndsymbol ! i) = res (prepared data ndsymbol ! i)"
    and "qual (ranked_rows data ndsymbol ! i) = qual (prepared data ndsymbol ! i)"
    and "DLIndex (ranked_rows data ndsymbol ! i)
           = dl_index (prepared data ndsymbol) (res (prepared data ndsymbol ! i))"
proof -
  have i: "i < length (indexed_rows (prepared data ndsymbol))"
    using assms by (simp add: indexed_rows_def)
  note p = ros_ranks_props(2)[OF i, of "length data", folded ranked_rows_def]
  have n: "indexed_rows (prepared data ndsymbol) ! i
           = \<lparr>res = res (prepared data ndsymbol ! i), qual = qual (prepared data ndsymbol ! i),
              DLIndex = dl_index (prepared data ndsymbol) (res (prepared data ndsymbol ! i))\<rparr>"
    using assms by (simp add: indexed_rows_def)
  show "res (ranked_rows data ndsymbol ! i) = res (prepared data ndsymbol ! i)"
    and "qual (ranked_rows data ndsymbol ! i) = qual (prepared data ndsymbol ! i)"
    and "DLIndex (ranked_rows data ndsymbol ! i)
           = dl_index (prepared data ndsymbol) (res (prepared data ndsymbol ! i))"
    using p n by simp_all
qed

lemma obs_of_ranked_rows: "map obs_of (ranked_rows data ndsymbol) = prepared data ndsymbol"
  by (rule nth_equalityI) (simp_all add: obs_of_def ranked_rows_nth)

subsection \<open>The branches without regression\<close>

lemma ranked_of_passthrough [simp]: "ranked_of (passthrough_row r) = r"
  by (simp add: ranked_of_def passthrough_row_def)

lemma ranked_of_half [simp]: "ranked_of (half_DL_row r) = r"
  by (simp add: ranked_of_def half_DL_row_def)

lemma MR_init_no_nd:
  assumes "\<forall>r \<in> set data. 0 < res r" and "count_nd data ndsymbol = 0"
  shows "MR_init ppf linregress data ndsymbol fitlogs =
           Inr \<lparr>N_tot = length data, N_nd = 0, DLs = [],
                debug = map passthrough_row (ranked_rows data ndsymbol), fit = None\<rparr>"
proof -
  have "cohn (prepared data ndsymbol) = []"
    using assms(2) by (simp add: cohn_empty nd_values_prepared_Nil)
  then show ?thesis
    by (simp add: MR_init_eq'[OF assms(1)] assms(2) estimator_no_nd)
qed

lemma MR_init_fallback:
  assumes "\<forall>r \<in> set data. 0 < res r" and "count_nd data ndsymbol \<noteq> 0"
    and "too_few_detects (length data) (count_nd data ndsymbol)"
  shows "MR_init ppf linregress data ndsymbol fitlogs =
           Inr \<lparr>N_tot = length data, N_nd = count_nd data ndsymbol,
                DLs = cohn (prepared data ndsymbol),
                debug = map half_DL_row (ranked_rows data ndsymbol), fit = None\<rparr>"
  by (simp add: MR_init_eq'[OF assms(1)] estimator_fallback[OF assms(2,3)])

lemma count_detects:
  "int (length data) - int (count_nd data ndsymbol)
     = int (length (filter (\<lambda>r. qual r \<noteq> ndsymbol) data))"
  using sum_length_filter_compl[of "\<lambda>r. qual r = ndsymbol" data]
  by (simp add: count_nd_def)

lemma too_few_detects_iff:
  "too_few_detects (length data) (count_nd data ndsymbol) \<longleftrightarrow>
     length (filter (\<lambda>r. qual r \<noteq> ndsymbol) data) < 2
     \<or> real (length (filter (\<lambda>r. qual r = ndsymbol) data)) / real (length data) > 0.8"
  unfolding too_few_detects_def count_detects by (simp add: count_nd_def)

lemma cohn_PE_zero: "d \<in> set (cohn data) \<Longrightarrow> PE d = Some 0"
  by (cases "nd_values data = []") (auto simp: cohn_empty cohn_rows)

lemma indexed_rows_no_nd:
  "nd_values sdata = [] \<Longrightarrow>
   indexed_rows sdata = map (\<lambda>r. \<lparr>res = res r, qual = qual r, DLIndex = 0\<rparr>) sdata"
  by (simp add: indexed_rows_def dl_index_def ros_DL_index_empty)

lemma obs_of_half [simp]: "obs_of (half_DL_row r) = obs_of r"
  by (simp add: obs_of_def half_DL_row_def)

lemma obs_of_passthrough [simp]: "obs_of (passthrough_row r) = obs_of r"
  by (simp add: obs_of_def passthrough_row_def)

lemma map_obs_of_half: "map obs_of (map half_DL_row rs) = map obs_of rs"
  by (induction rs) simp_all

lemma map_obs_of_passthrough: "map obs_of (map passthrough_row rs) = map obs_of rs"
  by (induction rs) simp_all

subsection \<open>Worked runs of the constructor\<close>

lemma ranked_rows_example_fallback:
  "ranked_rows [\<lparr>res = 3, qual = ''=''\<rparr>, \<lparr>res = 2, qual = ''ND''\<rparr>, \<lparr>res = 4, qual = ''ND''\<rparr>] ''ND''
   = [\<lparr>res = 2, qual = ''ND'', DLIndex = 0, Norm_Ranks = 1, Avg_Ranks = Some 1\<rparr>,
      \<lparr>res = 4, qual = ''ND'', DLIndex = 1, Norm_Ranks = 1, Avg_Ranks = Some 1\<rparr>,
      \<lparr>res = 3, qual = ''='', DLIndex = 0, Norm_Ranks = 1, Avg_Ranks = Some 1\<rparr>]"
  by code_simp

lemma cohn_example_fallback:
  "cohn (prepared [\<lparr>res = 3, qual = ''=''\<rparr>, \<lparr>res = 2, qual = ''ND''\<rparr>, \<lparr>res = 4, qual = ''ND''\<rparr>] ''ND'')
   = [\<lparr>counts = Some \<lparr>DL = 2, lower = 2, upper = Finite 4, A = 1, B = 1, C = 1\<rparr>, PE = Some 0\<rparr>,
      \<lparr>counts = Some \<lparr>DL = 4, lower = 4, upper = Infinity, A = 0, B = 3, C = 1\<rparr>, PE = Some 0\<rparr>,
      \<lparr>counts = None, PE = Some 0\<rparr>]"
  by code_simp

lemma MR_init_example_fallback:
  "MR_init ppf linregress
      [\<lparr>res = 3, qual = ''=''\<rparr>, \<lparr>res = 2, qual = ''ND''\<rparr>, \<lparr>res = 4, qual = ''ND''\<rparr>] ''ND'' fitlogs
   = Inr \<lparr>N_tot = 3, N_nd = 2,
          DLs = [\<lparr>counts = Some \<lparr>DL = 2, lower = 2, upper = Finite 4, A = 1, B = 1, C = 1\<rparr>, PE = Some 0\<rparr>,
                 \<lparr>counts = Some \<lparr>DL = 4, lower = 4, upper = Infinity, A = 0, B = 3, C = 1\<rparr>, PE = Some 0\<rparr>,
                 \<lparr>counts = None, PE = Some 0\<rparr>],
          debug = [\<lparr>res = 2, qual = ''ND'', DLIndex = 0, Norm_Ranks = 1, Avg_Ranks = Some 1,
                     plot_pos = None, Zprelim = None, modeled_data = None, final_data = Some 1\<rparr>,
                   \<lparr>res = 4, qual = ''ND'', DLIndex = 1, Norm_Ranks = 1, Avg_Ranks = Some 1,
                     plot_pos = None, Zprelim = None, modeled_data = None, final_data = Some 2\<rparr>,
                   \<lparr>res = 3, qual = ''='', DLIndex = 0, Norm_Ranks = 1, Avg_Ranks = Some 1,
                     plot_pos = None, Zprelim = None, modeled_data = None, final_data = Some 3\<rparr>],
          fit = None\<rparr>"
proof -
  let ?E = "[\<lparr>res = 3, qual = ''=''\<rparr>, \<lparr>res = 2, qual = ''ND''\<rparr>, \<lparr>res = 4, qual = ''ND''\<rparr>]"
  have p: "\<forall>r \<in> set ?E. 0 < res r" by simp
  have n: "count_nd ?E ''ND'' = 2" by (simp add: count_nd_def)
  have n0: "count_nd ?E ''ND'' \<noteq> 0" by (simp add: n)
  have f: "too_few_detects (length ?E) (count_nd ?E ''ND'')"
    by (simp add: n too_few_detects_def)
  show ?thesis
    unfolding MR_init_fallback[OF p n0 f] ranked_rows_example_fallback cohn_example_fallback n
    by (simp add: half_DL_row_def select_half_DLs_def)
qed

lemma ranked_rows_example_no_nd:
  "ranked_rows [\<lparr>res = 1, qual = ''=''\<rparr>, \<lparr>res = 3, qual = ''=''\<rparr>, \<lparr>res = 2, qual = ''=''\<rparr>] ''ND''
   = [\<lparr>res = 1, qual = ''='', DLIndex = 0, Norm_Ranks = 1, Avg_Ranks = Some 1\<rparr>,
      \<lparr>res = 2, qual = ''='', DLIndex = 0, Norm_Ranks = 2, Avg_Ranks = Some 2\<rparr>,
      \<lparr>res = 3, qual = ''='', DLIndex = 0, Norm_Ranks = 3, Avg_Ranks = Some 3\<rparr>]"
  by code_simp

lemma MR_init_example_no_nd:
  "MR_init ppf linregress
      [\<lparr>res = 1, qual = ''=''\<rparr>, \<lparr>res = 3, qual = ''=''\<rparr>, \<lparr>res = 2, qual = ''=''\<rparr>] ''ND'' fitlogs
   = Inr \<lparr>N_tot = 3, N_nd = 0, DLs = [],
          debug = [\<lparr>res = 1, qual = ''='', DLIndex = 0, Norm_Ranks = 1, Avg_Ranks = Some 1,
                     plot_pos = None, Zprelim = None, modeled_data = None, final_data = Some 1\<rparr>,
                   \<lparr>res = 2, qual = ''='', DLIndex = 0, Norm_Ranks = 2, Avg_Ranks = Some 2,
                     plot_pos = None, Zprelim = None, modeled_data = None, final_data = Some 2\<rparr>,
                   \<lparr>res = 3, qual = ''='', DLIndex = 0, Norm_Ranks = 3, Avg_Ranks = Some 3,
                     plot_pos = None, Zprelim = None, modeled_data = None, final_data = Some 3\<rparr>],
          fit = None\<rparr>"
proof -
  let ?E = "[\<lparr>res = 1, qual = ''=''\<rparr>, \<lparr>res = 3, qual = ''=''\<rparr>, \<lparr>res = 2, qual = ''=''\<rparr>]"
  have p: "\<forall>r \<in> set ?E. 0 < res r" by simp
  have n: "count_nd ?E ''ND'' = 0" by (simp add: count_nd_def)
  show ?thesis
    unfolding MR_init_no_nd[OF p n] ranked_rows_example_no_nd
    by (simp add: passthrough_row_def)
qed

subsection \<open>The regression branch of the estimator\<close>

lemma zip3_map: "zip xs (zip (map f xs) (map g (map f xs))) = map (\<lambda>x. (x, f x, g (f x))) xs"
  by (induction xs) auto

lemma filter_triples:
  "filter (\<lambda>(r, p, z). P r) (map (\<lambda>x. (x, f x, k x)) xs)
     = map (\<lambda>x. (x, f x, k x)) (filter P xs)"
  by (induction xs) auto

lemma ros_plotting_pos_Inr:
  "DLIndex r + 1 < length dls \<Longrightarrow> \<exists>p. ros_plotting_pos dls r = Inr p"
  by (simp add: ros_plotting_pos_def Let_def)

lemma estimator_regression:
  assumes nd: "n_nd \<noteq> 0" and few: "\<not> too_few_detects n_tot n_nd"
    and idx: "\<And>r. r \<in> set data \<Longrightarrow> DLIndex r + 1 < length dls"
  shows "estimator ppf linregress fitlogs n_tot n_nd dls data =
           Inr (compute_PE dls,
                map (regression_row ppf
                       (regression_fit ppf linregress fitlogs (compute_PE dls) data)
                       (compute_PE dls)) data,
                Some (regression_fit ppf linregress fitlogs (compute_PE dls) data))"
proof -
  let ?T = "compute_PE dls"
  have len: "length ?T = length dls"
    by (cases "dls = []") (simp_all add: compute_PE_props(1))
  have ap: "apply_rows (ros_plotting_pos ?T) data = Inr (map (plotting_pos ?T) data)"
    unfolding plotting_pos_def
  proof (rule apply_rows_Inr)
    fix r assume "r \<in> set data"
    then have "DLIndex r + 1 < length ?T" using idx len by simp
    then show "\<exists>y. ros_plotting_pos ?T r = Inr y" by (rule ros_plotting_pos_Inr)
  qed
  have c: "(int n_tot - int n_nd < 2 \<or> real n_nd / real n_tot > 0.8) = False"
    using few by (simp add: too_few_detects_def)
  show ?thesis
    unfolding estimator_def Let_def ap c sum.case zip3_map filter_triples
    using nd
    by (simp add: regression_fit_def regression_row_def modeled_def detects_def o_def)
qed

subsection \<open>Probabilities of exceedance of the table of cohn\<close>

lemma cohn_PE_counts:
  assumes ne: "nd_values data \<noteq> []"
  shows "length (compute_PE (cohn data)) = length (cohn_limits data) + 1"
    and "i < length (cohn_limits data) \<Longrightarrow>
           counts (compute_PE (cohn data) ! i) = Some (cohn_entry data (cohn_limits data) i)"
    and "counts (compute_PE (cohn data) ! length (cohn_limits data)) = None"
    and "PE (compute_PE (cohn data) ! length (cohn_limits data)) = Some 0"
proof -
  let ?n = "length (cohn_limits data)"
  have len: "length (cohn data) = ?n + 1" using ne by (rule cohn_length)
  then have nonempty: "cohn data \<noteq> []" by auto
  note p = compute_PE_props[OF nonempty]
  show "length (compute_PE (cohn data)) = ?n + 1" using p(1) len by simp
  show "counts (compute_PE (cohn data) ! i) = Some (cohn_entry data (cohn_limits data) i)"
    if "i < ?n" for i
    using p(3)[of i] that len cohn_nth(1)[OF ne that] by simp
  have last: "compute_PE (cohn data) ! ?n = cohn data ! ?n" using p(2) len by simp
  show "counts (compute_PE (cohn data) ! ?n) = None" using last cohn_nth(2)[OF ne] by simp
  show "PE (compute_PE (cohn data) ! ?n) = Some 0" using last cohn_nth(2)[OF ne] by simp
qed

lemma cohn_PE_step:
  assumes ne: "nd_values data \<noteq> []" and i: "i < length (cohn_limits data)"
    and p: "PE (compute_PE (cohn data) ! (i + 1)) = Some p"
  shows "PE (compute_PE (cohn data) ! i)
           = Some (p + real (A (cohn_entry data (cohn_limits data) i))
                       / (real (A (cohn_entry data (cohn_limits data) i))
                          + real (B (cohn_entry data (cohn_limits data) i))) * (1 - p))"
proof -
  let ?n = "length (cohn_limits data)"
  let ?c = "cohn_entry data (cohn_limits data) i"
  have len: "length (cohn data) = ?n + 1" using ne by (rule cohn_length)
  then have nonempty: "cohn data \<noteq> []" by auto
  have "i + 1 < length (cohn data)" using i len by simp
  then have "PE (compute_PE (cohn data) ! i)
             = PE_next (cohn data ! i) (PE (compute_PE (cohn data) ! (i + 1)))"
    by (rule compute_PE_props(4)[OF nonempty])
  also have "\<dots> = PE_next (cohn data ! i) (Some p)" by (simp only: p)
  also have "\<dots> = Some (p + real (A ?c) / (real (A ?c) + real (B ?c)) * (1 - p))"
  proof (rule PE_next_Some)
    show "counts (cohn data ! i) = Some ?c" by (simp add: cohn_nth(1)[OF ne i])
    show "0 < A ?c + B ?c" using ne i by (rule cohn_denominator_pos)
  qed
  finally show ?thesis .
qed

lemma cohn_PE_bounds:
  assumes ne: "nd_values data \<noteq> []" and i: "i \<le> length (cohn_limits data)"
  shows "\<exists>p. PE (compute_PE (cohn data) ! i) = Some p \<and> 0 \<le> p \<and> p \<le> 1"
  using i
proof (induction rule: inc_induct)
  case base
  show ?case using cohn_PE_counts(4)[OF ne] by simp
next
  case (step k)
  from step.IH obtain p where p: "PE (compute_PE (cohn data) ! (k + 1)) = Some p"
    "0 \<le> p" "p \<le> 1" by auto
  let ?c = "cohn_entry data (cohn_limits data) k"
  have "PE (compute_PE (cohn data) ! k)
        = Some (p + real (A ?c) / (real (A ?c) + real (B ?c)) * (1 - p))"
    using ne step.hyps(2) p(1) by (rule cohn_PE_step)
  moreover have "0 < A ?c + B ?c" using ne step.hyps(2) by (rule cohn_denominator_pos)
  ultimately show ?case using PE_update_bounds[OF p(2) p(3)] by simp
qed

lemma ranked_rows_DLIndex:
  assumes ne: "count_nd data ndsymbol \<noteq> 0" and r: "r \<in> set (ranked_rows data ndsymbol)"
  shows "DLIndex r < length (cohn_limits (prepared data ndsymbol))"
proof -
  let ?s = "prepared data ndsymbol"
  from r obtain i where i: "i < length data" "r = ranked_rows data ndsymbol ! i"
    by (auto simp: in_set_conv_nth)
  have nv: "nd_values ?s \<noteq> []" using ne by (simp add: nd_values_prepared_Nil)
  have "res (?s ! i) \<in> set (map res ?s)" using i(1) by simp
  then have "dl_index ?s (res (?s ! i)) < length (cohn_limits ?s)"
    using nv by (intro dl_index_bound)
  then show ?thesis using i ranked_rows_nth(3)[OF i(1)] by simp
qed

lemma MR_init_regression:
  assumes pos: "\<forall>r \<in> set data. 0 < res r" and nd: "count_nd data ndsymbol \<noteq> 0"
    and few: "\<not> too_few_detects (length data) (count_nd data ndsymbol)"
  shows "MR_init ppf linregress data ndsymbol fitlogs =
           Inr \<lparr>N_tot = length data, N_nd = count_nd data ndsymbol,
                DLs = compute_PE (cohn (prepared data ndsymbol)),
                debug = map (regression_row ppf
                          (regression_fit ppf linregress fitlogs
                             (compute_PE (cohn (prepared data ndsymbol)))
                             (ranked_rows data ndsymbol))
                          (compute_PE (cohn (prepared data ndsymbol))))
                          (ranked_rows data ndsymbol),
                fit = Some (regression_fit ppf linregress fitlogs
                             (compute_PE (cohn (prepared data ndsymbol)))
                             (ranked_rows data ndsymbol))\<rparr>"
proof -
  have nv: "nd_values (prepared data ndsymbol) \<noteq> []"
    using nd by (simp add: nd_values_prepared_Nil)
  have idx: "DLIndex r + 1 < length (cohn (prepared data ndsymbol))"
    if "r \<in> set (ranked_rows data ndsymbol)" for r
    using ranked_rows_DLIndex[OF nd that] cohn_length[OF nv] by simp
  show ?thesis
    by (simp add: MR_init_eq'[OF pos] estimator_regression[OF nd few idx])
qed

subsection \<open>Worked runs of the regression branch\<close>

lemma ranked_rows_example_ties:
  "ranked_rows [\<lparr>res = 5, qual = ''=''\<rparr>, \<lparr>res = 2, qual = ''ND''\<rparr>, \<lparr>res = 7, qual = ''=''\<rparr>,
                \<lparr>res = 5, qual = ''=''\<rparr>] ''ND''
   = [\<lparr>res = 2, qual = ''ND'', DLIndex = 0, Norm_Ranks = 1, Avg_Ranks = Some 1\<rparr>,
      \<lparr>res = 5, qual = ''='', DLIndex = 0, Norm_Ranks = 1, Avg_Ranks = Some (3 / 2)\<rparr>,
      \<lparr>res = 5, qual = ''='', DLIndex = 0, Norm_Ranks = 2, Avg_Ranks = Some (3 / 2)\<rparr>,
      \<lparr>res = 7, qual = ''='', DLIndex = 0, Norm_Ranks = 3, Avg_Ranks = Some 3\<rparr>]"
  by code_simp

lemma PE_example_ties:
  "compute_PE (cohn (prepared [\<lparr>res = 5, qual = ''=''\<rparr>, \<lparr>res = 2, qual = ''ND''\<rparr>,
                               \<lparr>res = 7, qual = ''=''\<rparr>, \<lparr>res = 5, qual = ''=''\<rparr>] ''ND''))
   = [\<lparr>counts = Some \<lparr>DL = 2, lower = 2, upper = Infinity, A = 3, B = 1, C = 1\<rparr>,
       PE = Some (3 / 4)\<rparr>,
      \<lparr>counts = None, PE = Some 0\<rparr>]"
  by code_simp

lemma plotting_pos_example_ties:
  "map (plotting_pos
         [\<lparr>counts = Some \<lparr>DL = 2, lower = 2, upper = Infinity, A = 3, B = 1, C = 1\<rparr>,
           PE = Some (3 / 4)\<rparr>,
          \<lparr>counts = None, PE = Some 0\<rparr>])
       [\<lparr>res = 2, qual = ''ND'', DLIndex = 0, Norm_Ranks = 1, Avg_Ranks = Some 1\<rparr>,
        \<lparr>res = 5, qual = ''='', DLIndex = 0, Norm_Ranks = 1, Avg_Ranks = Some (3 / 2)\<rparr>,
        \<lparr>res = 5, qual = ''='', DLIndex = 0, Norm_Ranks = 2, Avg_Ranks = Some (3 / 2)\<rparr>,
        \<lparr>res = 7, qual = ''='', DLIndex = 0, Norm_Ranks = 3, Avg_Ranks = Some 3\<rparr>]
   = [Some (1 / 8), Some (7 / 16), Some (5 / 8), Some (13 / 16)]"
  by code_simp

lemma ranked_rows_example_sub_minimum:
  "ranked_rows [\<lparr>res = 1, qual = ''=''\<rparr>, \<lparr>res = 2, qual = ''ND''\<rparr>, \<lparr>res = 3, qual = ''=''\<rparr>,
                \<lparr>res = 4, qual = ''=''\<rparr>] ''ND''
   = [\<lparr>res = 2, qual = ''ND'', DLIndex = 1, Norm_Ranks = 1, Avg_Ranks = Some 1\<rparr>,
      \<lparr>res = 1, qual = ''='', DLIndex = 0, Norm_Ranks = 1, Avg_Ranks = Some 1\<rparr>,
      \<lparr>res = 3, qual = ''='', DLIndex = 1, Norm_Ranks = 1, Avg_Ranks = Some 1\<rparr>,
      \<lparr>res = 4, qual = ''='', DLIndex = 1, Norm_Ranks = 2, Avg_Ranks = Some 2\<rparr>]"
  by code_simp

lemma PE_example_sub_minimum:
  "compute_PE (cohn (prepared [\<lparr>res = 1, qual = ''=''\<rparr>, \<lparr>res = 2, qual = ''ND''\<rparr>,
                               \<lparr>res = 3, qual = ''=''\<rparr>, \<lparr>res = 4, qual = ''=''\<rparr>] ''ND''))
   = [\<lparr>counts = Some \<lparr>DL = 1, lower = 1, upper = Finite 2, A = 1, B = 0, C = 0\<rparr>, PE = Some 1\<rparr>,
      \<lparr>counts = Some \<lparr>DL = 2, lower = 2, upper = Infinity, A = 2, B = 2, C = 1\<rparr>,
       PE = Some (1 / 2)\<rparr>,
      \<lparr>counts = None, PE = Some 0\<rparr>]"
  by code_simp

lemma regression_example_ties:
  "MR_init ppf linregress
     [\<lparr>res = 5, qual = ''=''\<rparr>, \<lparr>res = 2, qual = ''ND''\<rparr>, \<lparr>res = 7, qual = ''=''\<rparr>,
      \<lparr>res = 5, qual = ''=''\<rparr>] ''ND'' False
   = Inr \<lparr>N_tot = 4, N_nd = 1,
       DLs = [\<lparr>counts = Some \<lparr>DL = 2, lower = 2, upper = Infinity, A = 3, B = 1, C = 1\<rparr>,
               PE = Some (3 / 4)\<rparr>,
              \<lparr>counts = None, PE = Some 0\<rparr>],
       debug = map (regression_row ppf
                  (linregress [ppf (Some (7 / 16)), ppf (Some (5 / 8)), ppf (Some (13 / 16))]
                              [Some 5, Some 5, Some 7])
                  [\<lparr>counts = Some \<lparr>DL = 2, lower = 2, upper = Infinity, A = 3, B = 1, C = 1\<rparr>,
                    PE = Some (3 / 4)\<rparr>,
                   \<lparr>counts = None, PE = Some 0\<rparr>])
                [\<lparr>res = 2, qual = ''ND'', DLIndex = 0, Norm_Ranks = 1, Avg_Ranks = Some 1\<rparr>,
                 \<lparr>res = 5, qual = ''='', DLIndex = 0, Norm_Ranks = 1, Avg_Ranks = Some (3 / 2)\<rparr>,
                 \<lparr>res = 5, qual = ''='', DLIndex = 0, Norm_Ranks = 2, Avg_Ranks = Some (3 / 2)\<rparr>,
                 \<lparr>res = 7, qual = ''='', DLIndex = 0, Norm_Ranks = 3, Avg_Ranks = Some 3\<rparr>],
       fit = Some (linregress [ppf (Some (7 / 16)), ppf (Some (5 / 8)), ppf (Some (13 / 16))]
                              [Some 5, Some 5, Some 7])\<rparr>"
proof -
  let ?E = "[\<lparr>res = 5, qual = ''=''\<rparr>, \<lparr>res = 2, qual = ''ND''\<rparr>, \<lparr>res = 7, qual = ''=''\<rparr>,
             \<lparr>res = 5, qual = ''=''\<rparr>]"
  let ?T = "[\<lparr>counts = Some \<lparr>DL = 2, lower = 2, upper = Infinity, A = 3, B = 1, C = 1\<rparr>,
               PE = Some (3 / 4)\<rparr>,
              \<lparr>counts = None, PE = Some 0\<rparr>]"
  let ?R = "[\<lparr>res = 2, qual = ''ND'', DLIndex = 0, Norm_Ranks = 1, Avg_Ranks = Some 1\<rparr>,
        \<lparr>res = 5, qual = ''='', DLIndex = 0, Norm_Ranks = 1, Avg_Ranks = Some (3 / 2)\<rparr>,
        \<lparr>res = 5, qual = ''='', DLIndex = 0, Norm_Ranks = 2, Avg_Ranks = Some (3 / 2)\<rparr>,
        \<lparr>res = 7, qual = ''='', DLIndex = 0, Norm_Ranks = 3, Avg_Ranks = Some 3\<rparr>]"
  have p: "\<forall>r \<in> set ?E. 0 < res r" by simp
  have n: "count_nd ?E ''ND'' = 1" by (simp add: count_nd_def)
  have n0: "count_nd ?E ''ND'' \<noteq> 0" by (simp add: n)
  have f: "\<not> too_few_detects (length ?E) (count_nd ?E ''ND'')"
    by (simp add: n too_few_detects_def)
  have pp: "map (plotting_pos ?T) (detects ?R) = [Some (7 / 16), Some (5 / 8), Some (13 / 16)]"
    using plotting_pos_example_ties by (simp add: detects_def)
  have "regression_fit ppf linregress False ?T ?R
        = linregress (map ppf (map (plotting_pos ?T) (detects ?R))) (map (\<lambda>r. Some (res r)) (detects ?R))"
    by (simp add: regression_fit_def o_def)
  also have "\<dots> = linregress [ppf (Some (7 / 16)), ppf (Some (5 / 8)), ppf (Some (13 / 16))]
                              [Some 5, Some 5, Some 7]"
    unfolding pp by (simp add: detects_def)
  finally have fit: "regression_fit ppf linregress False ?T ?R
        = linregress [ppf (Some (7 / 16)), ppf (Some (5 / 8)), ppf (Some (13 / 16))]
                              [Some 5, Some 5, Some 7]" .
  show ?thesis
    unfolding MR_init_regression[OF p n0 f] ranked_rows_example_ties PE_example_ties n fit
    by simp
qed

subsection \<open>Bounds, plotting positions and totality\<close>

lemma MR_init_Inr_pos:
  assumes "MR_init ppf linregress data ndsymbol fitlogs = Inr m"
  shows "\<forall>r \<in> set data. 0 < res r"
proof (rule ccontr)
  assume "\<not> (\<forall>r \<in> set data. 0 < res r)"
  then obtain r where r: "r \<in> set data" "res r \<le> 0" by force
  then have ne: "data \<noteq> []" by auto
  have "Min (set (map res data)) \<le> res r" using r(1) by (intro Min_le) auto
  then have "Min (set (map res data)) \<le> 0" using r(2) by linarith
  then have "MR_init ppf linregress data ndsymbol fitlogs = Inl ValueError"
    using ne unfolding MR_init_def by (simp only: simp_thms if_True)
  then show False using assms by simp
qed

lemma regression_condition:
  assumes "2 \<le> length (filter (\<lambda>r. qual r \<noteq> ndsymbol) data)"
    and "real (length (filter (\<lambda>r. qual r = ndsymbol) data)) / real (length data) \<le> 0.8"
  shows "\<not> too_few_detects (length data) (count_nd data ndsymbol)"
  using assms by (simp add: too_few_detects_iff)

lemma PE_update_strict:
  fixes p :: real
  assumes "0 \<le> p" "p < 1" "0 < b"
  shows "p + real a / (real a + real b) * (1 - p) < 1"
proof -
  let ?r = "real a / (real a + real b)"
  have pos: "0 < real a + real b" using assms(3) by (simp add: add_nonneg_pos)
  have "real a < real a + real b" using assms(3) by simp
  then have r1: "?r < 1" using pos by (simp add: divide_less_eq)
  have "?r * (1 - p) < 1 * (1 - p)" using r1 assms(2) by (intro mult_strict_right_mono) auto
  then show ?thesis by simp
qed

lemma cohn_PE_strict:
  assumes ne: "nd_values data \<noteq> []" and i0: "0 < i" and i: "i \<le> length (cohn_limits data)"
  shows "\<exists>p. PE (compute_PE (cohn data) ! i) = Some p \<and> p < 1"
  using i
proof (induction rule: inc_induct)
  case base
  show ?case using cohn_PE_counts(4)[OF ne] by simp
next
  case (step k)
  from step.IH obtain p where p: "PE (compute_PE (cohn data) ! (k + 1)) = Some p" "p < 1"
    by auto
  from cohn_PE_bounds[OF ne, of "k + 1"] step.hyps(2) p(1) have p0: "0 \<le> p" by auto
  let ?c = "cohn_entry data (cohn_limits data) k"
  have k0: "k \<noteq> 0" using i0 step.hyps(1) by simp
  from cohn_limits_cases[OF ne step.hyps(2)] k0
  have "cohn_limits data ! k \<in> set (nd_values data)" by blast
  then have "0 < cohn_B data (cohn_limits data ! k)" by (rule cohn_B_pos)
  then have b: "0 < B ?c" by (simp add: cohn_entry_def)
  have "PE (compute_PE (cohn data) ! k)
        = Some (p + real (A ?c) / (real (A ?c) + real (B ?c)) * (1 - p))"
    using ne step.hyps(2) p(1) by (rule cohn_PE_step)
  then show ?case using PE_update_strict[OF p0 p(2) b] by simp
qed

lemma plotting_pos_value:
  assumes "DLIndex r + 1 < length dls" and "counts (dls ! DLIndex r) = Some c"
    and "PE (dls ! DLIndex r) = Some p1" and "PE (dls ! (DLIndex r + 1)) = Some p2"
  shows "plotting_pos dls r =
           Some (if qual r = ''ND'' then (1 - p1) * Norm_Ranks r / (real (C c) + 1)
                 else (1 - p1) + (p1 - p2) * Norm_Ranks r / (real (A c) + 1))"
proof -
  have c: "real (C c) + 1 \<noteq> 0" and a: "real (A c) + 1 \<noteq> 0"
    by (simp_all add: add_nonneg_eq_0_iff)
  show ?thesis
    using assms c a unfolding plotting_pos_def ros_plotting_pos_def Let_def
    by (simp add: col_A_def col_C_def)
qed

lemma PE_zero_denominator:
  assumes "j + 1 < length dls" and "counts (dls ! j) = Some c" and "A c + B c = 0"
  shows "PE (compute_PE dls ! j) = None"
proof -
  have ne: "dls \<noteq> []" using assms(1) by auto
  have "PE (compute_PE dls ! j) = PE_next (dls ! j) (PE (compute_PE dls ! (j + 1)))"
    using assms(1) by (rule compute_PE_props(4)[OF ne])
  moreover have "PE_next (dls ! j) q = None" for q
    using assms(2,3) by (cases q) (simp_all add: PE_next_def col_A_def col_B_def)
  ultimately show ?thesis by simp
qed

lemma estimator_total:
  assumes "\<And>r. r \<in> set data \<Longrightarrow> DLIndex r + 1 < length dls"
  shows "\<exists>out. estimator ppf linregress fitlogs n_tot n_nd dls data = Inr out"
proof (cases "n_nd = 0")
  case True
  then show ?thesis by (simp add: estimator_no_nd)
next
  case nd: False
  show ?thesis
  proof (cases "too_few_detects n_tot n_nd")
    case True
    then show ?thesis using nd by (simp add: estimator_fallback)
  next
    case False
    show ?thesis using estimator_regression[OF nd False assms] by simp
  qed
qed

lemma np_exp_not_identity: "np_exp (Some x) \<noteq> Some x"
proof -
  have "1 + x \<le> exp x" by (rule exp_ge_add_one_self)
  then have "exp x \<noteq> x" by linarith
  then show ?thesis by (simp add: np_exp_def)
qed

section \<open>The claims\<close>

text \<open>
  C2. In the table that \<open>cohn\<close> builds from \<open>self.data\<close>, every row that carries a
  detection limit has the Cohn counts of the data model: \<open>A\<close> is the number of detected
  results in \<open>[lower, upper)\<close>, \<open>B\<close> is the number of results strictly below \<open>lower\<close>
  plus the number of censored results equal to \<open>lower\<close>, and \<open>C\<close> is the number of
  censored results equal to \<open>lower\<close>. (The row appended by \<open>reindex\<close> carries no limit
  and no counts.)
\<close>

theorem cohn_counts:
  assumes "d \<in> set (cohn data)" and "counts d = Some c"
  shows "A c = length (filter (\<lambda>r. qual r \<noteq> ''ND'' \<and> lower c \<le> res r
                                   \<and> below (res r) (upper c)) data)
       \<and> B c = length (filter (\<lambda>r. res r < lower c) data)
               + length (filter (\<lambda>r. qual r = ''ND'' \<and> res r = lower c) data)
       \<and> C c = length (filter (\<lambda>r. qual r = ''ND'' \<and> res r = lower c) data)"
proof -
  from cohn_row_cases[OF assms] obtain i where
    c: "c = cohn_entry data (cohn_limits data) i" by blast
  have a: "A c = length (filter (\<lambda>r. qual r \<noteq> ''ND'' \<and> lower c \<le> res r
                                     \<and> below (res r) (upper c)) data)"
    unfolding c cohn_entry_def cohn_A_def by (simp add: conj_ac)
  have b: "B c = length (filter (\<lambda>r. res r < lower c) data)
               + length (filter (\<lambda>r. qual r = ''ND'' \<and> res r = lower c) data)"
    unfolding c cohn_entry_def cohn_B_def Let_def by (simp add: count_split)
  have cc: "C c = length (filter (\<lambda>r. qual r = ''ND'' \<and> res r = lower c) data)"
    unfolding c cohn_entry_def by (simp add: cohn_C_eq)
  show ?thesis using a b cc by blast
qed

theorem cohn_counts_witness:
  "\<lparr>counts = Some \<lparr>DL = 2, lower = 2, upper = Infinity, A = 2, B = 2, C = 1\<rparr>, PE = Some 0\<rparr>
     \<in> set (cohn [\<lparr>res = 2, qual = ''ND''\<rparr>, \<lparr>res = 1, qual = ''=''\<rparr>, \<lparr>res = 3, qual = ''=''\<rparr>,
                  \<lparr>res = 4, qual = ''=''\<rparr>])
   \<and> (2::nat) = length (filter (\<lambda>r. qual r \<noteq> ''ND'' \<and> 2 \<le> res r \<and> below (res r) Infinity)
                  [\<lparr>res = 2, qual = ''ND''\<rparr>, \<lparr>res = 1, qual = ''=''\<rparr>, \<lparr>res = 3, qual = ''=''\<rparr>,
                   \<lparr>res = 4, qual = ''=''\<rparr>])
   \<and> (2::nat) = length (filter (\<lambda>r. res r < 2)
                  [\<lparr>res = 2, qual = ''ND''\<rparr>, \<lparr>res = 1, qual = ''=''\<rparr>, \<lparr>res = 3, qual = ''=''\<rparr>,
                   \<lparr>res = 4, qual = ''=''\<rparr>])
               + length (filter (\<lambda>r. qual r = ''ND'' \<and> res r = 2)
                  [\<lparr>res = 2, qual = ''ND''\<rparr>, \<lparr>res = 1, qual = ''=''\<rparr>, \<lparr>res = 3, qual = ''=''\<rparr>,
                   \<lparr>res = 4, qual = ''=''\<rparr>])"
proof -
  let ?data = "[\<lparr>res = 2, qual = ''ND''\<rparr>, \<lparr>res = 1, qual = ''=''\<rparr>, \<lparr>res = 3, qual = ''=''\<rparr>,
                \<lparr>res = 4, qual = ''=''\<rparr>]"
  let ?c = "\<lparr>DL = 2, lower = 2, upper = Infinity, A = 2, B = 2, C = 1\<rparr>"
  have h1: "\<lparr>counts = Some ?c, PE = Some 0\<rparr> \<in> set (cohn ?data)"
    by (simp add: cohn_example_sub_minimum)
  have h2: "counts \<lparr>counts = Some ?c, PE = Some 0\<rparr> = Some ?c" by simp
  from cohn_counts[OF h1 h2] h1 show ?thesis by simp
qed

text \<open>
  C4. \<open>_ros_ranks\<close>, on any sequence of rows (so also on every canonically ordered one):
  the raw rank \<open>Norm Ranks\<close> of a row is 1 when the row is the first one or its
  \<open>DLIndex\<close> or its qualifier differs from the previous row's, and the previous row's
  raw rank plus 1 otherwise. \<open>Avg Ranks\<close> of a censored row is its raw rank; \<open>Avg Ranks\<close>
  of a detected row is the mean of the raw ranks of the detected rows with the same
  \<open>DLIndex\<close> and the same result, so two tied detects have the same averaged rank.
\<close>

theorem ros_ranks_contract:
  fixes data :: "indexed list"
  shows "length (ros_ranks n data) = length data \<and>
   (\<forall>i < length data.
      res (ros_ranks n data ! i) = res (data ! i) \<and>
      qual (ros_ranks n data ! i) = qual (data ! i) \<and>
      DLIndex (ros_ranks n data ! i) = DLIndex (data ! i) \<and>
      Norm_Ranks (ros_ranks n data ! i) =
        (if i = 0 \<or> DLIndex (data ! i) \<noteq> DLIndex (data ! (i - 1))
               \<or> qual (data ! i) \<noteq> qual (data ! (i - 1))
         then 1 else Norm_Ranks (ros_ranks n data ! (i - 1)) + 1) \<and>
      (qual (data ! i) = ''ND'' \<longrightarrow>
         Avg_Ranks (ros_ranks n data ! i) = Some (Norm_Ranks (ros_ranks n data ! i))) \<and>
      (qual (data ! i) \<noteq> ''ND'' \<longrightarrow>
         tied_detects (ros_ranks n data) (DLIndex (data ! i)) (res (data ! i)) \<noteq> [] \<and>
         Avg_Ranks (ros_ranks n data ! i) =
           Some (sum_list (map Norm_Ranks
                   (tied_detects (ros_ranks n data) (DLIndex (data ! i)) (res (data ! i))))
                 / real (length (tied_detects (ros_ranks n data) (DLIndex (data ! i))
                                   (res (data ! i))))))) \<and>
   (\<forall>i < length data. \<forall>j < length data.
      qual (data ! i) \<noteq> ''ND'' \<and> qual (data ! j) \<noteq> ''ND'' \<and>
      DLIndex (data ! i) = DLIndex (data ! j) \<and> res (data ! i) = res (data ! j) \<longrightarrow>
      Avg_Ranks (ros_ranks n data ! i) = Avg_Ranks (ros_ranks n data ! j))"
proof -
  let ?R = "ros_ranks n data"
  note p = ros_ranks_props[where n = n and data = data]
  have avg: "tied_detects ?R (DLIndex (data ! i)) (res (data ! i)) \<noteq> [] \<and>
       Avg_Ranks (?R ! i) = mean (map Norm_Ranks (tied_detects ?R (DLIndex (data ! i)) (res (data ! i))))"
    if "i < length data" "qual (data ! i) \<noteq> ''ND''" for i
  proof -
    have "qual (?R ! i) \<noteq> ''ND''" using p(2)[OF that(1)] that(2) by simp
    from p(5)[OF that(1) this] show ?thesis using p(2)[OF that(1)] by simp
  qed
  have row: "res (?R ! i) = res (data ! i) \<and>
      qual (?R ! i) = qual (data ! i) \<and>
      DLIndex (?R ! i) = DLIndex (data ! i) \<and>
      Norm_Ranks (?R ! i) =
        (if i = 0 \<or> DLIndex (data ! i) \<noteq> DLIndex (data ! (i - 1))
               \<or> qual (data ! i) \<noteq> qual (data ! (i - 1))
         then 1 else Norm_Ranks (?R ! (i - 1)) + 1) \<and>
      (qual (data ! i) = ''ND'' \<longrightarrow> Avg_Ranks (?R ! i) = Some (Norm_Ranks (?R ! i))) \<and>
      (qual (data ! i) \<noteq> ''ND'' \<longrightarrow>
         tied_detects ?R (DLIndex (data ! i)) (res (data ! i)) \<noteq> [] \<and>
         Avg_Ranks (?R ! i) =
           Some (sum_list (map Norm_Ranks (tied_detects ?R (DLIndex (data ! i)) (res (data ! i))))
                 / real (length (tied_detects ?R (DLIndex (data ! i)) (res (data ! i))))))"
    if i: "i < length data" for i
  proof -
    have a: "Norm_Ranks (?R ! i) =
        (if i = 0 \<or> DLIndex (data ! i) \<noteq> DLIndex (data ! (i - 1))
               \<or> qual (data ! i) \<noteq> qual (data ! (i - 1))
         then 1 else Norm_Ranks (?R ! (i - 1)) + 1)"
      using p(3)[OF i] by (simp add: rank_reset_def)
    have b: "qual (data ! i) = ''ND'' \<longrightarrow> Avg_Ranks (?R ! i) = Some (Norm_Ranks (?R ! i))"
      using p(4)[OF i] p(2)[OF i] by simp
    have c: "qual (data ! i) \<noteq> ''ND'' \<longrightarrow>
         tied_detects ?R (DLIndex (data ! i)) (res (data ! i)) \<noteq> [] \<and>
         Avg_Ranks (?R ! i) =
           Some (sum_list (map Norm_Ranks (tied_detects ?R (DLIndex (data ! i)) (res (data ! i))))
                 / real (length (tied_detects ?R (DLIndex (data ! i)) (res (data ! i)))))"
      using avg[OF i] by (auto simp: mean_def)
    show ?thesis using p(2)[OF i] a b c by blast
  qed
  have tie: "Avg_Ranks (?R ! i) = Avg_Ranks (?R ! j)"
    if "i < length data" "j < length data" "qual (data ! i) \<noteq> ''ND''" "qual (data ! j) \<noteq> ''ND''"
       "DLIndex (data ! i) = DLIndex (data ! j)" "res (data ! i) = res (data ! j)" for i j
    using avg[OF that(1,3)] avg[OF that(2,4)] that(5,6) by simp
  show ?thesis using p(1) row tie by blast
qed

theorem ros_ranks_contract_witness:
  "Norm_Ranks (ros_ranks 4 [\<lparr>res = 2, qual = ''ND'', DLIndex = 0\<rparr>,
        \<lparr>res = 5, qual = ''='', DLIndex = 0\<rparr>, \<lparr>res = 5, qual = ''='', DLIndex = 0\<rparr>,
        \<lparr>res = 7, qual = ''='', DLIndex = 0\<rparr>] ! 2)
   = Norm_Ranks (ros_ranks 4 [\<lparr>res = 2, qual = ''ND'', DLIndex = 0\<rparr>,
        \<lparr>res = 5, qual = ''='', DLIndex = 0\<rparr>, \<lparr>res = 5, qual = ''='', DLIndex = 0\<rparr>,
        \<lparr>res = 7, qual = ''='', DLIndex = 0\<rparr>] ! 1) + 1
   \<and> Avg_Ranks (ros_ranks 4 [\<lparr>res = 2, qual = ''ND'', DLIndex = 0\<rparr>,
        \<lparr>res = 5, qual = ''='', DLIndex = 0\<rparr>, \<lparr>res = 5, qual = ''='', DLIndex = 0\<rparr>,
        \<lparr>res = 7, qual = ''='', DLIndex = 0\<rparr>] ! 1)
   = Avg_Ranks (ros_ranks 4 [\<lparr>res = 2, qual = ''ND'', DLIndex = 0\<rparr>,
        \<lparr>res = 5, qual = ''='', DLIndex = 0\<rparr>, \<lparr>res = 5, qual = ''='', DLIndex = 0\<rparr>,
        \<lparr>res = 7, qual = ''='', DLIndex = 0\<rparr>] ! 2)
   \<and> map Avg_Ranks (ros_ranks 4 [\<lparr>res = 2, qual = ''ND'', DLIndex = 0\<rparr>,
        \<lparr>res = 5, qual = ''='', DLIndex = 0\<rparr>, \<lparr>res = 5, qual = ''='', DLIndex = 0\<rparr>,
        \<lparr>res = 7, qual = ''='', DLIndex = 0\<rparr>])
   = [Some 1, Some (3 / 2), Some (3 / 2), Some 3]"
proof -
  let ?D = "[\<lparr>res = 2, qual = ''ND'', DLIndex = 0\<rparr>, \<lparr>res = 5, qual = ''='', DLIndex = 0\<rparr>,
             \<lparr>res = 5, qual = ''='', DLIndex = 0\<rparr>, \<lparr>res = 7, qual = ''='', DLIndex = 0\<rparr>]"
  note c = ros_ranks_contract[of 4 ?D]
  have len: "length ?D = 4" by simp
  from c have row: "\<forall>i < length ?D. Norm_Ranks (ros_ranks 4 ?D ! i) =
        (if i = 0 \<or> DLIndex (?D ! i) \<noteq> DLIndex (?D ! (i - 1))
               \<or> qual (?D ! i) \<noteq> qual (?D ! (i - 1))
         then 1 else Norm_Ranks (ros_ranks 4 ?D ! (i - 1)) + 1)"
    by blast
  have r: "Norm_Ranks (ros_ranks 4 ?D ! 2) = Norm_Ranks (ros_ranks 4 ?D ! 1) + 1"
    using row[rule_format, of 2] by simp
  from c have tie: "\<forall>i < length ?D. \<forall>j < length ?D.
      qual (?D ! i) \<noteq> ''ND'' \<and> qual (?D ! j) \<noteq> ''ND'' \<and>
      DLIndex (?D ! i) = DLIndex (?D ! j) \<and> res (?D ! i) = res (?D ! j) \<longrightarrow>
      Avg_Ranks (ros_ranks 4 ?D ! i) = Avg_Ranks (ros_ranks 4 ?D ! j)"
    by blast
  have a: "Avg_Ranks (ros_ranks 4 ?D ! 1) = Avg_Ranks (ros_ranks 4 ?D ! 2)"
    using tie[rule_format, of 1 2] by simp
  have m: "map Avg_Ranks (ros_ranks 4 ?D) = [Some 1, Some (3 / 2), Some (3 / 2), Some 3]"
    by (simp add: ros_ranks_example_ties)
  show ?thesis using r a m by blast
qed

text \<open>
  C6. When at least one result is censored and either fewer than two results are detected
  or more than 0.8 of the results are censored, \<open>MR\<close> on positive data returns
  normally, performs no fit (\<open>fit\<close> is unset and no plotting position, quantile score or
  modelled value exists), and the final value of every row is half the reported result
  for a censored row and the result itself for a detected row. The rows are those of the
  input, qualifiers normalised to \<open>ND\<close> and \<open>=\<close>.
\<close>

theorem half_DL_fallback:
  assumes "\<forall>r \<in> set data. 0 < res r"
    and "0 < length (filter (\<lambda>r. qual r = ndsymbol) data)"
    and "length (filter (\<lambda>r. qual r \<noteq> ndsymbol) data) < 2
         \<or> real (length (filter (\<lambda>r. qual r = ndsymbol) data)) / real (length data) > 0.8"
  shows "\<exists>m. MR_init ppf linregress data ndsymbol fitlogs = Inr m
          \<and> fit m = None
          \<and> mset (map obs_of (debug m)) = mset (normalize_qual ndsymbol data)
          \<and> (\<forall>r \<in> set (debug m).
                final_data r = (if qual r = ''ND'' then Some (0.5 * res r) else Some (res r))
                \<and> plot_pos r = None \<and> Zprelim r = None \<and> modeled_data r = None)"
proof -
  have nd: "count_nd data ndsymbol \<noteq> 0" using assms(2) by (simp add: count_nd_def)
  have few: "too_few_detects (length data) (count_nd data ndsymbol)"
    using assms(3) by (simp only: too_few_detects_iff)
  let ?m = "\<lparr>N_tot = length data, N_nd = count_nd data ndsymbol,
             DLs = cohn (prepared data ndsymbol),
             debug = map half_DL_row (ranked_rows data ndsymbol), fit = None\<rparr>"
  have m: "MR_init ppf linregress data ndsymbol fitlogs = Inr ?m"
    using assms(1) nd few by (rule MR_init_fallback)
  have "map obs_of (debug ?m) = prepared data ndsymbol"
    by (simp only: MR.simps map_obs_of_half obs_of_ranked_rows)
  then have "mset (map obs_of (debug ?m)) = mset (normalize_qual ndsymbol data)"
    by (simp only: mset_prepared)
  moreover have "\<forall>r \<in> set (debug ?m).
        final_data r = (if qual r = ''ND'' then Some (0.5 * res r) else Some (res r))
        \<and> plot_pos r = None \<and> Zprelim r = None \<and> modeled_data r = None"
    by (auto simp: half_DL_row_def select_half_DLs_def)
  ultimately show ?thesis using m by (intro exI[of _ ?m]) simp
qed

theorem half_DL_fallback_witness:
  "\<exists>m. MR_init (\<lambda>x. x) (\<lambda>xs ys. (None, None)) 
          [\<lparr>res = 3, qual = ''=''\<rparr>, \<lparr>res = 2, qual = ''ND''\<rparr>, \<lparr>res = 4, qual = ''ND''\<rparr>] ''ND'' True = Inr m
       \<and> fit m = None
       \<and> map final_data (debug m) = [Some 1, Some 2, Some 3]
       \<and> map qual (debug m) = [''ND'', ''ND'', ''='']"
proof -
  let ?E = "
          [\<lparr>res = 3, qual = ''=''\<rparr>, \<lparr>res = 2, qual = ''ND''\<rparr>, \<lparr>res = 4, qual = ''ND''\<rparr>]"
  have h1: "\<forall>r \<in> set ?E. 0 < res r" by simp
  have h2: "0 < length (filter (\<lambda>r. qual r = ''ND'') ?E)" by simp
  have h3: "length (filter (\<lambda>r. qual r \<noteq> ''ND'') ?E) < 2
         \<or> real (length (filter (\<lambda>r. qual r = ''ND'') ?E)) / real (length ?E) > 0.8"
    by simp
  from half_DL_fallback[OF h1 h2 h3, where ppf = "\<lambda>x. x"
      and linregress = "\<lambda>xs ys. (None, None)" and fitlogs = True]
  obtain m where m: "MR_init (\<lambda>x. x) (\<lambda>xs ys. (None, None)) ?E ''ND'' True = Inr m"
    and f: "fit m = None" by blast
  from m have a: "map final_data (debug m) = [Some 1, Some 2, Some 3]"
    and b: "map qual (debug m) = [''ND'', ''ND'', ''='']"
    by (auto simp: MR_init_example_fallback)
  show ?thesis by (rule exI[of _ m]) (intro conjI m f a b)
qed

text \<open>
  C10. On the same fallback branch the constructor leaves the detection-limit table as
  \<open>cohn\<close> built it, every \<open>PE\<close> at its initial 0, and the rows as \<open>_ros_ranks\<close> left
  them (results, qualifiers, \<open>DLIndex\<close>, \<open>Norm Ranks\<close>, \<open>Avg Ranks\<close>): beside the
  final value no column is added, \<open>plot_pos\<close>, \<open>Zprelim\<close> and \<open>modeled_data\<close> do not
  exist, and no fit is stored.
\<close>

theorem fallback_frame:
  assumes "\<forall>r \<in> set data. 0 < res r"
    and "0 < length (filter (\<lambda>r. qual r = ndsymbol) data)"
    and "length (filter (\<lambda>r. qual r \<noteq> ndsymbol) data) < 2
         \<or> real (length (filter (\<lambda>r. qual r = ndsymbol) data)) / real (length data) > 0.8"
  shows "\<exists>m. MR_init ppf linregress data ndsymbol fitlogs = Inr m
          \<and> DLs m = cohn (rosSort (normalize_qual ndsymbol data) ndsymbol)
          \<and> (\<forall>d \<in> set (DLs m). PE d = Some 0)
          \<and> fit m = None
          \<and> map ranked_of (debug m) =
              ros_ranks (length data)
                (indexed_rows (rosSort (normalize_qual ndsymbol data) ndsymbol))
          \<and> (\<forall>r \<in> set (debug m).
                plot_pos r = None \<and> Zprelim r = None \<and> modeled_data r = None)"
proof -
  have nd: "count_nd data ndsymbol \<noteq> 0" using assms(2) by (simp add: count_nd_def)
  have few: "too_few_detects (length data) (count_nd data ndsymbol)"
    using assms(3) by (simp only: too_few_detects_iff)
  let ?m = "\<lparr>N_tot = length data, N_nd = count_nd data ndsymbol,
             DLs = cohn (prepared data ndsymbol),
             debug = map half_DL_row (ranked_rows data ndsymbol), fit = None\<rparr>"
  have m: "MR_init ppf linregress data ndsymbol fitlogs = Inr ?m"
    using assms(1) nd few by (rule MR_init_fallback)
  have a: "\<forall>d \<in> set (DLs ?m). PE d = Some 0" by (simp add: cohn_PE_zero)
  have b: "map ranked_of (debug ?m) =
             ros_ranks (length data) (indexed_rows (rosSort (normalize_qual ndsymbol data) ndsymbol))"
    by (simp add: o_def ranked_rows_def prepared_def)
  have c: "\<forall>r \<in> set (debug ?m). plot_pos r = None \<and> Zprelim r = None \<and> modeled_data r = None"
    by (auto simp: half_DL_row_def)
  have d: "DLs ?m = cohn (rosSort (normalize_qual ndsymbol data) ndsymbol)"
    by (simp add: prepared_def)
  show ?thesis using m a b c d by (intro exI[of _ ?m]) simp
qed

theorem fallback_frame_witness:
  "\<exists>m. MR_init (\<lambda>x. x) (\<lambda>xs ys. (None, None)) 
          [\<lparr>res = 3, qual = ''=''\<rparr>, \<lparr>res = 2, qual = ''ND''\<rparr>, \<lparr>res = 4, qual = ''ND''\<rparr>] ''ND'' True = Inr m
       \<and> map PE (DLs m) = [Some 0, Some 0, Some 0]
       \<and> map plot_pos (debug m) = [None, None, None]
       \<and> fit m = None"
proof -
  let ?E = "
          [\<lparr>res = 3, qual = ''=''\<rparr>, \<lparr>res = 2, qual = ''ND''\<rparr>, \<lparr>res = 4, qual = ''ND''\<rparr>]"
  have h1: "\<forall>r \<in> set ?E. 0 < res r" by simp
  have h2: "0 < length (filter (\<lambda>r. qual r = ''ND'') ?E)" by simp
  have h3: "length (filter (\<lambda>r. qual r \<noteq> ''ND'') ?E) < 2
         \<or> real (length (filter (\<lambda>r. qual r = ''ND'') ?E)) / real (length ?E) > 0.8"
    by simp
  from fallback_frame[OF h1 h2 h3, where ppf = "\<lambda>x. x"
      and linregress = "\<lambda>xs ys. (None, None)" and fitlogs = True]
  obtain m where m: "MR_init (\<lambda>x. x) (\<lambda>xs ys. (None, None)) ?E ''ND'' True = Inr m"
    and f: "fit m = None" by blast
  from m have a: "map PE (DLs m) = [Some 0, Some 0, Some 0]"
    and b: "map plot_pos (debug m) = [None, None, None]"
    by (auto simp: MR_init_example_fallback)
  show ?thesis by (rule exI[of _ m]) (intro conjI m a b f)
qed

text \<open>
  C7, as the code has it. Without a censored result, \<open>MR\<close> on positive data returns
  an empty detection-limit table, computes no probability of exceedance, plotting
  position, quantile score or fit, and gives every row its result as final value. The
  rank stage is not skipped: \<open>__init__\<close> calls \<open>_ros_ranks\<close> before \<open>estimator\<close> on
  every path, so each row carries \<open>DLIndex\<close> 0 and the ranks computed from it.
\<close>

theorem no_censored_passthrough:
  assumes "\<forall>r \<in> set data. 0 < res r"
    and "filter (\<lambda>r. qual r = ndsymbol) data = []"
  shows "\<exists>m. MR_init ppf linregress data ndsymbol fitlogs = Inr m
          \<and> DLs m = [] \<and> fit m = None
          \<and> mset (map res (debug m)) = mset (map res data)
          \<and> (\<forall>r \<in> set (debug m).
                final_data r = Some (res r) \<and> plot_pos r = None \<and> Zprelim r = None
                \<and> modeled_data r = None)
          \<and> map ranked_of (debug m) =
              ros_ranks (length data)
                (map (\<lambda>r. \<lparr>res = res r, qual = qual r, DLIndex = 0\<rparr>)
                     (rosSort (normalize_qual ndsymbol data) ndsymbol))"
proof -
  have nd: "count_nd data ndsymbol = 0" using assms(2) by (simp add: count_nd_def)
  let ?m = "\<lparr>N_tot = length data, N_nd = 0, DLs = [],
                debug = map passthrough_row (ranked_rows data ndsymbol), fit = None\<rparr>"
  have m: "MR_init ppf linregress data ndsymbol fitlogs = Inr ?m"
    using assms(1) nd by (rule MR_init_no_nd)
  have "map obs_of (debug ?m) = prepared data ndsymbol"
    by (simp only: MR.simps map_obs_of_passthrough obs_of_ranked_rows)
  then have "map res (map obs_of (debug ?m)) = map res (prepared data ndsymbol)" by simp
  then have "map res (debug ?m) = map res (prepared data ndsymbol)"
    by (simp add: obs_of_def o_def)
  then have a: "mset (map res (debug ?m)) = mset (map res data)"
    by (simp only: mset_res_prepared)
  have b: "\<forall>r \<in> set (debug ?m).
                final_data r = Some (res r) \<and> plot_pos r = None \<and> Zprelim r = None
                \<and> modeled_data r = None"
    by (auto simp: passthrough_row_def)
  have "nd_values (prepared data ndsymbol) = []" using nd by (simp add: nd_values_prepared_Nil)
  then have c: "map ranked_of (debug ?m) =
              ros_ranks (length data)
                (map (\<lambda>r. \<lparr>res = res r, qual = qual r, DLIndex = 0\<rparr>)
                     (rosSort (normalize_qual ndsymbol data) ndsymbol))"
    by (simp add: o_def ranked_rows_def indexed_rows_no_nd) (simp add: prepared_def)
  show ?thesis using m a b c by (intro exI[of _ ?m]) simp
qed

theorem no_censored_passthrough_witness:
  "\<exists>m. MR_init (\<lambda>x. x) (\<lambda>xs ys. (None, None)) 
          [\<lparr>res = 1, qual = ''=''\<rparr>, \<lparr>res = 3, qual = ''=''\<rparr>, \<lparr>res = 2, qual = ''=''\<rparr>] ''ND'' True = Inr m
       \<and> DLs m = [] \<and> fit m = None
       \<and> map final_data (debug m) = [Some 1, Some 2, Some 3]"
proof -
  let ?E = "
          [\<lparr>res = 1, qual = ''=''\<rparr>, \<lparr>res = 3, qual = ''=''\<rparr>, \<lparr>res = 2, qual = ''=''\<rparr>]"
  have h1: "\<forall>r \<in> set ?E. 0 < res r" by simp
  have h2: "filter (\<lambda>r. qual r = ''ND'') ?E = []" by simp
  from no_censored_passthrough[OF h1 h2, where ppf = "\<lambda>x. x"
      and linregress = "\<lambda>xs ys. (None, None)" and fitlogs = True]
  obtain m where m: "MR_init (\<lambda>x. x) (\<lambda>xs ys. (None, None)) ?E ''ND'' True = Inr m"
    and f: "DLs m = []" "fit m = None" by blast
  from m have a: "map final_data (debug m) = [Some 1, Some 2, Some 3]"
    by (auto simp: MR_init_example_no_nd)
  show ?thesis by (rule exI[of _ m]) (intro conjI m f a)
qed

text \<open>
  The claim C7 as stated (no rank machinery is invoked without censored results) fails:
  for three detected results the rows come back with the ranks 1, 2, 3 that \<open>_ros_ranks\<close>
  assigned, not with the value 3.0 the column is initialised with.
\<close>

theorem ranks_without_censored_counterexample:
  "MR_init (\<lambda>x. x) (\<lambda>xs ys. (None, None)) 
          [\<lparr>res = 1, qual = ''=''\<rparr>, \<lparr>res = 3, qual = ''=''\<rparr>, \<lparr>res = 2, qual = ''=''\<rparr>] ''ND'' True
   = Inr \<lparr>N_tot = 3, N_nd = 0, DLs = [],
          debug = [\<lparr>res = 1, qual = ''='', DLIndex = 0, Norm_Ranks = 1, Avg_Ranks = Some 1,
                     plot_pos = None, Zprelim = None, modeled_data = None, final_data = Some 1\<rparr>,
                   \<lparr>res = 2, qual = ''='', DLIndex = 0, Norm_Ranks = 2, Avg_Ranks = Some 2,
                     plot_pos = None, Zprelim = None, modeled_data = None, final_data = Some 2\<rparr>,
                   \<lparr>res = 3, qual = ''='', DLIndex = 0, Norm_Ranks = 3, Avg_Ranks = Some 3,
                     plot_pos = None, Zprelim = None, modeled_data = None, final_data = Some 3\<rparr>],
          fit = None\<rparr>"
  by (rule MR_init_example_no_nd)

end
